theory Spec2Isabelle
  imports Complex_Main "HOL-Library.Word"
begin

unbundle bit_operations_syntax

section \<open>Data model of llama-android.cpp\<close>

text \<open>
  Pointers that cross the JNI boundary (\<^verbatim>\<open>llama_context *\<close>, \<^verbatim>\<open>llama_batch *\<close>,
  \<^verbatim>\<open>llama_sampler *\<close>) are opaque addresses; address \<open>0\<close> is \<^verbatim>\<open>nullptr\<close>.
  A C++ \<^verbatim>\<open>int\<close> or \<^verbatim>\<open>jint\<close> is a 32-bit two's-complement value, modelled by the \<open>int\<close> it
  denotes. Where the source's arithmetic can leave the 32-bit range (the prompt budget of
  \<^verbatim>\<open>completion_init\<close>) the result is wrapped by \<open>int32\<close>, which is what the compiled
  code computes (the C++ standard leaves signed overflow undefined). The conversion of the
  engine's \<^verbatim>\<open>uint32_t\<close> context length to \<^verbatim>\<open>int\<close> is \<open>sint\<close>. Token counts are taken to
  fit an \<^verbatim>\<open>int\<close>, and the positions \<open>pos0 + done + i\<close> of the chunked decode are not
  wrapped: both of its callers start at position 0.
\<close>

type_synonym handle = nat
type_synonym llama_token = int
type_synonym byte = "8 word"

text \<open>The value a 32-bit \<^verbatim>\<open>int\<close> holds after an operation whose exact result is \<open>x\<close>.\<close>

definition int32 :: "int \<Rightarrow> int" where
  "int32 x = (x + 2147483648) mod 4294967296 - 2147483648"

text \<open>
  One slot of a \<^verbatim>\<open>llama_batch\<close>: \<^verbatim>\<open>token[i]\<close>, \<^verbatim>\<open>pos[i]\<close>, \<^verbatim>\<open>seq_id[i][0..n_seq_id[i])\<close>
  and \<^verbatim>\<open>logits[i]\<close>. A batch is the list of its first \<^verbatim>\<open>n_tokens\<close> slots, which is all
  that \<^verbatim>\<open>llama_decode\<close> reads.
\<close>

record batch_rec =
  tok :: llama_token
  pos :: int
  seq_ids :: "int list"
  logits :: bool

text \<open>
  The four process-wide \<^verbatim>\<open>std::unordered_map\<close> registries. The mutexes that guard them
  are not modelled: every operation here runs on one thread.
\<close>

record registries =
  g_batch_n_tokens :: "handle \<rightharpoonup> int"
  g_batch_n_seq_max :: "handle \<rightharpoonup> int"
  g_ctx_n_batch :: "handle \<rightharpoonup> int"
  g_ctx_n_ctx :: "handle \<rightharpoonup> int"

text \<open>
  The inference engine (llama.cpp) is an external collaborator. Its primitives are
  parameters of the model; \<open>'e\<close> is the engine's internal state (KV cache, sampler state).
  \<^verbatim>\<open>llama_n_ctx\<close> returns a \<^verbatim>\<open>uint32_t\<close>.
\<close>

record 'e engine =
  llama_n_ctx :: "handle \<Rightarrow> 32 word"
  llama_get_model :: "handle \<Rightarrow> handle"
  llama_decode :: "'e \<Rightarrow> handle \<Rightarrow> batch_rec list \<Rightarrow> int \<times> 'e"
  llama_kv_cache_clear :: "'e \<Rightarrow> handle \<Rightarrow> 'e"
  common_tokenize :: "handle \<Rightarrow> byte list \<Rightarrow> llama_token list"
  llama_sampler_sample :: "'e \<Rightarrow> handle \<Rightarrow> handle \<Rightarrow> llama_token \<times> 'e"
  llama_token_is_eog :: "handle \<Rightarrow> llama_token \<Rightarrow> bool"
  llama_token_eot :: "handle \<Rightarrow> llama_token"
  common_token_to_piece :: "handle \<Rightarrow> llama_token \<Rightarrow> byte list"

text \<open>
  The mutable state the JNI layer works on: the engine, the static string
  \<^verbatim>\<open>cached_token_chars\<close>, the contents of every \<^verbatim>\<open>llama_batch\<close> object, and (as
  ghost fields) the batches handed to \<^verbatim>\<open>llama_decode\<close> so far and the code each of these
  calls returned, oldest first.
\<close>

record 'e state =
  eng :: 'e
  cached_token_chars :: "byte list"
  batch_mem :: "handle \<Rightarrow> batch_rec list"
  decode_calls :: "batch_rec list list"
  decode_rcs :: "int list"

definition CHAT_N_CTX_DEFAULT :: int where
  "CHAT_N_CTX_DEFAULT = 1024"

definition CHAT_N_BATCH_DEFAULT :: int where
  "CHAT_N_BATCH_DEFAULT = 512"

section \<open>Handle registries\<close>

definition get_batch_capacity :: "registries \<Rightarrow> handle \<Rightarrow> int" where
  "get_batch_capacity R batch =
     (if batch = 0 then 0
      else case g_batch_n_tokens R batch of Some v \<Rightarrow> v | None \<Rightarrow> 0)"

text \<open>
  \<^verbatim>\<open>get_ctx_limits\<close> returns the pair \<open>(out_n_ctx, out_n_batch)\<close> of its two out-parameters.
  \<^verbatim>\<open>out_n_ctx = llama_n_ctx(ctx)\<close> stores a \<^verbatim>\<open>uint32_t\<close> in an \<^verbatim>\<open>int\<close>: a reported length of
  \<open>2^31\<close> or more becomes negative.
\<close>

definition get_ctx_limits :: "'e engine \<Rightarrow> registries \<Rightarrow> handle \<Rightarrow> int \<times> int" where
  "get_ctx_limits E R ctx =
     (let out_n_ctx = (if ctx \<noteq> 0 then sint (llama_n_ctx E ctx) else 0);
          out_n_batch = 0;
          out_n_ctx = (if ctx \<noteq> 0
                       then (case g_ctx_n_ctx R ctx of Some v \<Rightarrow> v | None \<Rightarrow> out_n_ctx)
                       else out_n_ctx);
          out_n_batch = (if ctx \<noteq> 0
                         then (case g_ctx_n_batch R ctx of Some v \<Rightarrow> v | None \<Rightarrow> out_n_batch)
                         else out_n_batch);
          out_n_batch = (if out_n_batch \<le> 0 then CHAT_N_BATCH_DEFAULT else out_n_batch);
          out_n_ctx = (if out_n_ctx \<le> 0 then CHAT_N_CTX_DEFAULT else out_n_ctx)
      in (out_n_ctx, out_n_batch))"

section \<open>Chunked decode\<close>

text \<open>
  \<^verbatim>\<open>common_batch_clear\<close> and \<^verbatim>\<open>common_batch_add\<close> belong to llama.cpp's common library:
  the first resets \<^verbatim>\<open>n_tokens\<close> to 0, the second writes one slot at index \<^verbatim>\<open>n_tokens\<close>
  and increments it.
\<close>

definition common_batch_clear :: "batch_rec list \<Rightarrow> batch_rec list" where
  "common_batch_clear b = []"

definition common_batch_add ::
  "batch_rec list \<Rightarrow> llama_token \<Rightarrow> int \<Rightarrow> int list \<Rightarrow> bool \<Rightarrow> batch_rec list" where
  "common_batch_add b t p ids lg = b @ [\<lparr>tok = t, pos = p, seq_ids = ids, logits = lg\<rparr>]"

text \<open>
  The body of one iteration of the \<^verbatim>\<open>while\<close> loop of \<^verbatim>\<open>decode_tokens_chunked\<close> up to the
  engine call: clear the batch, add \<open>take_n\<close> tokens (the source's \<^verbatim>\<open>take\<close>), and set
  the logits flag of the last slot when this is the final chunk and logits were asked for.
\<close>

definition fill_chunk ::
  "batch_rec list \<Rightarrow> llama_token list \<Rightarrow> int \<Rightarrow> bool \<Rightarrow> int \<Rightarrow> int \<Rightarrow> batch_rec list" where
  "fill_chunk b tokens pos0 want_logits_last_token done take_n =
     (let b = common_batch_clear b;
          b = fold (\<lambda>i b. common_batch_add b (tokens ! nat (done + i)) (pos0 + done + i) [0] False)
                [0..take_n - 1] b;
          n_tokens = int (length b)
      in if want_logits_last_token \<and> done + take_n = int (length tokens)
         then (if n_tokens > 0
               then b[nat (n_tokens - 1) := (b ! nat (n_tokens - 1))\<lparr>logits := True\<rparr>]
               else b)
         else b)"

text \<open>
  The \<^verbatim>\<open>while (done < (int)tokens.size())\<close> loop. \<open>chunk_cap\<close> is the loop-invariant
  constant of the source, computed from the two resolved limits.
\<close>

function decode_chunks ::
  "'e engine \<Rightarrow> handle \<Rightarrow> handle \<Rightarrow> llama_token list \<Rightarrow> int \<Rightarrow> bool \<Rightarrow> int \<Rightarrow> int \<Rightarrow>
   int \<Rightarrow> 'e state \<Rightarrow> bool \<times> 'e state" where
  "decode_chunks E ctx batch tokens pos0 want_logits_last_token n_batch_ctx batch_cap done s =
     (let chunk_cap = max 1 (min n_batch_ctx (if batch_cap > 0 then batch_cap else n_batch_ctx))
      in if done < int (length tokens) then
           (let take_n = min chunk_cap (int (length tokens) - done);
                b = fill_chunk (batch_mem s batch) tokens pos0 want_logits_last_token done take_n;
                r = llama_decode E (eng s) ctx b;
                s' = s\<lparr>eng := snd r, batch_mem := (batch_mem s)(batch := b),
                       decode_calls := decode_calls s @ [b],
                       decode_rcs := decode_rcs s @ [fst r]\<rparr>
            in if fst r \<noteq> 0 then (False, s')
               else decode_chunks E ctx batch tokens pos0 want_logits_last_token
                      n_batch_ctx batch_cap (done + take_n) s')
         else (True, s))"
  by pat_completeness auto
termination
  by (relation "measure (\<lambda>(E, ctx, batch, tokens, pos0, w, nb, bc, done, s).
                   nat (int (length tokens) - done))") auto

declare decode_chunks.simps [simp del]

definition decode_tokens_chunked ::
  "'e engine \<Rightarrow> registries \<Rightarrow> handle \<Rightarrow> handle \<Rightarrow> llama_token list \<Rightarrow> int \<Rightarrow> bool \<Rightarrow>
   'e state \<Rightarrow> bool \<times> 'e state" where
  "decode_tokens_chunked E R ctx batch tokens pos0 want_logits_last_token s =
     (if ctx = 0 \<or> batch = 0 then (False, s)
      else if tokens = [] then (True, s)
      else (let (n_ctx, n_batch_ctx) = get_ctx_limits E R ctx;
                batch_cap = get_batch_capacity R batch
            in decode_chunks E ctx batch tokens pos0 want_logits_last_token
                 n_batch_ctx batch_cap 0 s))"

text \<open>
  The chunk size as a function of the two limits, and the chunk size the scheduler
  resolves for a context and a batch: the names under which the theorems below speak of
  the source's \<^verbatim>\<open>chunk_cap\<close>.
\<close>

definition chunk_cap :: "int \<Rightarrow> int \<Rightarrow> int" where
  "chunk_cap n_batch_ctx batch_cap =
     max 1 (min n_batch_ctx (if batch_cap > 0 then batch_cap else n_batch_ctx))"

definition chunk_cap_of :: "'e engine \<Rightarrow> registries \<Rightarrow> handle \<Rightarrow> handle \<Rightarrow> int" where
  "chunk_cap_of E R ctx batch =
     chunk_cap (snd (get_ctx_limits E R ctx)) (get_batch_capacity R batch)"

text \<open>
  The batches the loop builds from offset \<open>done\<close> on when no engine call fails: the loop
  of \<open>decode_chunks\<close> without the engine. \<open>rec_at i\<close> is the slot the loop writes for the
  token at index \<open>i\<close>.
\<close>

function chunks_from ::
  "llama_token list \<Rightarrow> int \<Rightarrow> bool \<Rightarrow> int \<Rightarrow> int \<Rightarrow> int \<Rightarrow> batch_rec list list" where
  "chunks_from tokens pos0 want_logits_last_token n_batch_ctx batch_cap done =
     (let chunk_cap = max 1 (min n_batch_ctx (if batch_cap > 0 then batch_cap else n_batch_ctx))
      in if done < int (length tokens) then
           (let take_n = min chunk_cap (int (length tokens) - done)
            in fill_chunk [] tokens pos0 want_logits_last_token done take_n #
               chunks_from tokens pos0 want_logits_last_token n_batch_ctx batch_cap
                 (done + take_n))
         else [])"
  by pat_completeness auto
termination
  by (relation "measure (\<lambda>(tokens, pos0, w, nb, bc, done). nat (int (length tokens) - done))")
    auto

declare chunks_from.simps [simp del]

definition rec_at :: "llama_token list \<Rightarrow> int \<Rightarrow> bool \<Rightarrow> int \<Rightarrow> batch_rec" where
  "rec_at tokens pos0 w i =
     \<lparr>tok = tokens ! nat i, pos = pos0 + i, seq_ids = [0],
      logits = (w \<and> i = int (length tokens) - 1)\<rparr>"

section \<open>Completion initialisation\<close>

datatype jexception = IllegalArgumentException | IllegalStateException | OutOfMemoryError

text \<open>
  The prompt budget of \<^verbatim>\<open>completion_init\<close> (\<^verbatim>\<open>max_prompt\<close>), computed in 32-bit \<^verbatim>\<open>int\<close>
  arithmetic from the \<^verbatim>\<open>int\<close> \<open>n_ctx\<close> and the \<^verbatim>\<open>jint\<close> \<open>n_len\<close>, and the trimming
  \<^verbatim>\<open>tokens.erase(tokens.begin(), tokens.end() - max_prompt)\<close>, which keeps the last
  \<open>max_prompt\<close> tokens.
\<close>

definition max_prompt_of :: "int \<Rightarrow> int \<Rightarrow> int" where
  "max_prompt_of n_ctx n_len =
     (let max_prompt = int32 (n_ctx - n_len - 8)
      in if max_prompt < 64 then max 64 (int32 (n_ctx - 64)) else max_prompt)"

definition trim_prompt :: "llama_token list \<Rightarrow> int \<Rightarrow> llama_token list" where
  "trim_prompt tokens max_prompt =
     (if int (length tokens) > max_prompt
      then drop (length tokens - nat max_prompt) tokens
      else tokens)"

text \<open>
  \<^verbatim>\<open>completion_init\<close>. \<open>jtext\<close> is the byte string \<^verbatim>\<open>GetStringUTFChars\<close> yields (the empty
  string when it yields null). A pending Java exception is \<open>Inl\<close>; otherwise the \<^verbatim>\<open>jint\<close>
  returned is \<open>Inr\<close>.
\<close>

definition completion_init ::
  "'e engine \<Rightarrow> registries \<Rightarrow> handle \<Rightarrow> handle \<Rightarrow> byte list \<Rightarrow> int \<Rightarrow> 'e state \<Rightarrow>
   (jexception + int) \<times> 'e state" where
  "completion_init E R context_pointer batch_pointer jtext n_len s =
     (let s = s\<lparr>cached_token_chars := []\<rparr>;
          ctx = context_pointer;
          batch = batch_pointer
      in if ctx = 0 \<or> batch = 0 then (Inl IllegalStateException, s)
         else
           (let n_ctx = sint (llama_n_ctx E ctx);
                s = s\<lparr>eng := llama_kv_cache_clear E (eng s) ctx\<rparr>;
                tokens = common_tokenize E ctx jtext;
                max_prompt = max_prompt_of n_ctx n_len;
                tokens = trim_prompt tokens max_prompt;
                prompt_tokens = int (length tokens);
                r = decode_tokens_chunked E R ctx batch tokens 0 True s
            in if \<not> fst r then (Inr 0, snd r) else (Inr prompt_tokens, snd r)))"

section \<open>Partial-text accumulator\<close>

text \<open>
  \<^verbatim>\<open>is_valid_utf8\<close> walks a NUL-terminated C string. Its argument here is the content of
  the \<^verbatim>\<open>std::string\<close> from the current pointer on; \<^verbatim>\<open>c_str()\<close> guarantees a NUL after
  the last byte, so reading at the end of the list yields 0 (\<open>deref\<close>). The walk never
  moves past a NUL: at a lead position it stops with \<^verbatim>\<open>true\<close>, at a continuation
  position it stops with \<^verbatim>\<open>false\<close>. The null-pointer case of the source does not arise:
  \<^verbatim>\<open>c_str()\<close> is never null.
\<close>

definition deref :: "byte list \<Rightarrow> byte" where
  "deref bytes = (case bytes of [] \<Rightarrow> 0 | b # rest \<Rightarrow> b)"

text \<open>The \<^verbatim>\<open>if / else if\<close> chain that sets \<^verbatim>\<open>num\<close>; \<open>None\<close> is \<^verbatim>\<open>return false\<close>.\<close>

definition lead_num :: "byte \<Rightarrow> nat option" where
  "lead_num b =
     (if b AND 0x80 = 0x00 then Some 1
      else if b AND 0xE0 = 0xC0 then Some 2
      else if b AND 0xF0 = 0xE0 then Some 3
      else if b AND 0xF8 = 0xF0 then Some 4
      else None)"

text \<open>
  The inner \<^verbatim>\<open>for\<close> loop, with \<open>k\<close> iterations left: \<open>None\<close> is \<^verbatim>\<open>return false\<close>,
  \<open>Some rest\<close> the pointer after the loop.
\<close>

fun cont_bytes :: "nat \<Rightarrow> byte list \<Rightarrow> byte list option" where
  "cont_bytes 0 bytes = Some bytes"
| "cont_bytes (Suc k) bytes =
     (if deref bytes AND 0xC0 \<noteq> 0x80 then None else cont_bytes k (tl bytes))"

lemma cont_bytes_length: "cont_bytes k bytes = Some rest \<Longrightarrow> length rest \<le> length bytes"
proof (induction k arbitrary: bytes)
  case 0
  then show ?case by simp
next
  case (Suc k)
  from Suc.prems have "cont_bytes k (tl bytes) = Some rest"
    by (simp split: if_splits)
  then have "length rest \<le> length (tl bytes)"
    by (rule Suc.IH)
  then show ?case by simp
qed

function is_valid_utf8 :: "byte list \<Rightarrow> bool" where
  "is_valid_utf8 bytes =
     (if deref bytes = 0x00 then True
      else (case lead_num (deref bytes) of
              None \<Rightarrow> False
            | Some num \<Rightarrow>
                (case cont_bytes (num - 1) (tl bytes) of
                   None \<Rightarrow> False
                 | Some rest \<Rightarrow> is_valid_utf8 rest)))"
  by pat_completeness auto
termination
proof (relation "measure length")
  fix bytes :: "byte list" and num rest
  assume "deref bytes \<noteq> 0" and "cont_bytes (num - 1) (tl bytes) = Some rest"
  then have "bytes \<noteq> []" and "length rest \<le> length (tl bytes)"
    by (auto simp: deref_def dest: cont_bytes_length)
  then show "(rest, bytes) \<in> measure length"
    by (cases bytes) auto
qed simp

declare is_valid_utf8.simps [simp del]

text \<open>What \<^verbatim>\<open>NewStringUTF(cached_token_chars.c_str())\<close> reads: the bytes before the first NUL.\<close>

definition c_str :: "byte list \<Rightarrow> byte list" where
  "c_str bytes = takeWhile (\<lambda>b. b \<noteq> 0) bytes"

text \<open>
  The accumulator step of \<^verbatim>\<open>completion_loop\<close>: append the piece to
  \<^verbatim>\<open>cached_token_chars\<close>; if the buffer passes \<^verbatim>\<open>is_valid_utf8\<close>, emit it and clear it,
  else emit the empty string and keep it. The result is (emitted string, new buffer).
\<close>

definition accumulate :: "byte list \<Rightarrow> byte list \<Rightarrow> byte list \<times> byte list" where
  "accumulate cached piece =
     (let cached = cached @ piece
      in if is_valid_utf8 cached then (c_str cached, []) else ([], cached))"

text \<open>Feeding pieces one at a time, as successive \<^verbatim>\<open>completion_loop\<close> calls do.\<close>

fun feed :: "byte list \<Rightarrow> byte list list \<Rightarrow> byte list list" where
  "feed cached [] = []"
| "feed cached (piece # pieces) =
     fst (accumulate cached piece) # feed (snd (accumulate cached piece)) pieces"

text \<open>
  Well-formedness in the words of the specification: every lead byte is followed by the
  right number of continuation bytes, and no sequence is cut off at the end.
\<close>

fun utf8_units :: "byte list \<Rightarrow> bool" where
  "utf8_units [] = True"
| "utf8_units (b # bs) =
     (case lead_num b of
        None \<Rightarrow> False
      | Some num \<Rightarrow>
          num - 1 \<le> length bs \<and> list_all (\<lambda>c. c AND 0xC0 = 0x80) (take (num - 1) bs) \<and>
          utf8_units (drop (num - 1) bs))"

text \<open>
  Well-formed UTF-8 as RFC 3629 defines it: one to four bytes per character, lead bytes
  \<open>00..7F\<close>, \<open>C2..DF\<close>, \<open>E0..EF\<close>, \<open>F0..F4\<close>, continuation bytes \<open>80..BF\<close>, with the
  narrower second byte after \<open>E0\<close>, \<open>ED\<close>, \<open>F0\<close> and \<open>F4\<close> that excludes overlong forms,
  surrogates and code points beyond U+10FFFF.
\<close>

definition utf8_tail :: "byte \<Rightarrow> bool" where
  "utf8_tail b = (0x80 \<le> b \<and> b \<le> 0xBF)"

definition second_of_3 :: "byte \<Rightarrow> byte \<Rightarrow> bool" where
  "second_of_3 b0 b1 =
     (if b0 = 0xE0 then 0xA0 \<le> b1 \<and> b1 \<le> 0xBF
      else if b0 = 0xED then 0x80 \<le> b1 \<and> b1 \<le> 0x9F
      else utf8_tail b1)"

definition second_of_4 :: "byte \<Rightarrow> byte \<Rightarrow> bool" where
  "second_of_4 b0 b1 =
     (if b0 = 0xF0 then 0x90 \<le> b1 \<and> b1 \<le> 0xBF
      else if b0 = 0xF4 then 0x80 \<le> b1 \<and> b1 \<le> 0x8F
      else utf8_tail b1)"

fun utf8_strict :: "byte list \<Rightarrow> bool" where
  "utf8_strict [] = True"
| "utf8_strict (b0 # bs) =
     (if b0 \<le> 0x7F then utf8_strict bs
      else if 0xC2 \<le> b0 \<and> b0 \<le> 0xDF then
        (case bs of b1 # r \<Rightarrow> utf8_tail b1 \<and> utf8_strict r | _ \<Rightarrow> False)
      else if 0xE0 \<le> b0 \<and> b0 \<le> 0xEF then
        (case bs of b1 # b2 # r \<Rightarrow> second_of_3 b0 b1 \<and> utf8_tail b2 \<and> utf8_strict r
         | _ \<Rightarrow> False)
      else if 0xF0 \<le> b0 \<and> b0 \<le> 0xF4 then
        (case bs of b1 # b2 # b3 # r \<Rightarrow>
           second_of_4 b0 b1 \<and> utf8_tail b2 \<and> utf8_tail b3 \<and> utf8_strict r
         | _ \<Rightarrow> False)
      else False)"

section \<open>Generation loop\<close>

text \<open>
  \<^verbatim>\<open>completion_loop\<close>. \<open>intvar_ncur\<close> is the Kotlin \<^verbatim>\<open>IntVar\<close> object holding the cursor
  (\<open>None\<close> is a null reference); its value after the call is returned next to the
  result. The JNI class and method lookups are taken to succeed, \<^verbatim>\<open>getValue\<close> to read
  the value and \<^verbatim>\<open>inc\<close> to add one to it. The result \<open>None\<close> is \<^verbatim>\<open>nullptr\<close>.
\<close>

definition completion_loop ::
  "'e engine \<Rightarrow> handle \<Rightarrow> handle \<Rightarrow> handle \<Rightarrow> int \<Rightarrow> int option \<Rightarrow> 'e state \<Rightarrow>
   byte list option \<times> int option \<times> 'e state" where
  "completion_loop E ctx batch sampler n_len intvar_ncur s =
     (case intvar_ncur of
        None \<Rightarrow> (None, intvar_ncur, s)
      | Some n_cur \<Rightarrow>
          if ctx = 0 \<or> batch = 0 \<or> sampler = 0 then (None, intvar_ncur, s)
          else
            (let n_ctx = sint (llama_n_ctx E ctx);
                 model = llama_get_model E ctx
             in if n_cur < 0 \<or> n_cur \<ge> n_ctx then (None, intvar_ncur, s)
                else
                  (let smp = llama_sampler_sample E (eng s) sampler ctx;
                       new_token_id = fst smp;
                       s = s\<lparr>eng := snd smp\<rparr>
                   in if llama_token_is_eog E model new_token_id \<or> n_cur = n_len \<or>
                         new_token_id = llama_token_eot E model
                      then (None, intvar_ncur, s)
                      else
                        (let acc = accumulate (cached_token_chars s)
                                     (common_token_to_piece E ctx new_token_id);
                             out = fst acc;
                             s = s\<lparr>cached_token_chars := snd acc\<rparr>;
                             b = common_batch_add (common_batch_clear (batch_mem s batch))
                                   new_token_id n_cur [0] True;
                             intvar_ncur = Some (n_cur + 1);
                             r = llama_decode E (eng s) ctx b;
                             s = s\<lparr>eng := snd r, batch_mem := (batch_mem s)(batch := b),
                                   decode_calls := decode_calls s @ [b],
                       decode_rcs := decode_rcs s @ [fst r]\<rparr>
                         in if fst r \<noteq> 0 then (None, intvar_ncur, s)
                            else (Some out, intvar_ncur, s)))))"

section \<open>Batch allocation\<close>

text \<open>
  The \<^verbatim>\<open>llama_batch\<close> struct as \<^verbatim>\<open>new_batch\<close> and \<^verbatim>\<open>free_batch\<close> see it: its pointer fields
  (\<open>None\<close> is \<^verbatim>\<open>nullptr\<close>) and the row pointers stored in the \<^verbatim>\<open>seq_id\<close> array.
\<close>

record llama_batch =
  p_token :: "nat option"
  p_embd :: "nat option"
  p_pos :: "nat option"
  p_n_seq_id :: "nat option"
  p_seq_id :: "nat option"
  seq_id_rows :: "nat list"
  p_logits :: "nat option"

text \<open>
  The C heap: the addresses of the live blocks, the next fresh address, the outcome of
  the \<^verbatim>\<open>malloc\<close> calls to come, in order (\<open>True\<close>: the call succeeds; once the list is used
  up every call succeeds), and the contents of the live \<^verbatim>\<open>llama_batch\<close> objects.
  \<^verbatim>\<open>new\<close> is taken to succeed. Block sizes play no part and are left out.
\<close>

record heap =
  live :: "nat list"
  next_addr :: nat
  malloc_plan :: "bool list"
  batches :: "nat \<rightharpoonup> llama_batch"

definition fresh_block :: "heap \<Rightarrow> nat \<times> heap" where
  "fresh_block h =
     (next_addr h, h\<lparr>live := live h @ [next_addr h], next_addr := Suc (next_addr h)\<rparr>)"

definition malloc :: "heap \<Rightarrow> nat option \<times> heap" where
  "malloc h =
     (case malloc_plan h of
        [] \<Rightarrow> (Some (fst (fresh_block h)), snd (fresh_block h))
      | ok # plan \<Rightarrow>
          if ok then (Some (fst (fresh_block h)), (snd (fresh_block h))\<lparr>malloc_plan := plan\<rparr>)
          else (None, h\<lparr>malloc_plan := plan\<rparr>))"

definition free :: "heap \<Rightarrow> nat \<Rightarrow> heap" where
  "free h p = h\<lparr>live := removeAll p (live h)\<rparr>"

text \<open>\<^verbatim>\<open>if (p) free(p)\<close>.\<close>

definition free_if :: "heap \<Rightarrow> nat option \<Rightarrow> heap" where
  "free_if h p = (case p of None \<Rightarrow> h | Some a \<Rightarrow> free h a)"

text \<open>
  The loop \<^verbatim>\<open>for (i = 0; i < n_tokens; ++i) batch->seq_id[i] = malloc_or_throw(...)\<close> with
  \<open>k\<close> iterations left and the rows allocated so far: \<open>Inl\<close> when a \<^verbatim>\<open>malloc\<close> fails.
\<close>

fun alloc_rows :: "nat \<Rightarrow> nat list \<Rightarrow> heap \<Rightarrow> (unit + nat list) \<times> heap" where
  "alloc_rows 0 rows h = (Inr rows, h)"
| "alloc_rows (Suc k) rows h =
     (case fst (malloc h) of
        None \<Rightarrow> (Inl (), snd (malloc h))
      | Some p \<Rightarrow> alloc_rows k (rows @ [p]) (snd (malloc h)))"

text \<open>
  \<^verbatim>\<open>new_batch\<close>. Every \<^verbatim>\<open>if (env->ExceptionCheck()) { delete batch; return 0; }\<close> is the
  branch \<open>(Inl OutOfMemoryError, R, free h batch)\<close>: the struct is deleted, nothing else.
  The struct's fields are collected in \<open>b\<close> and stored when the function succeeds.
\<close>

definition new_batch ::
  "registries \<Rightarrow> heap \<Rightarrow> int \<Rightarrow> int \<Rightarrow> int \<Rightarrow> (jexception + handle) \<times> registries \<times> heap" where
  "new_batch R h n_tokens embd n_seq_max =
     (if n_tokens \<le> 0 \<or> n_seq_max \<le> 0 then (Inl IllegalArgumentException, R, h)
      else
        (let batch = fst (fresh_block h); h = snd (fresh_block h);
             b = \<lparr>p_token = None, p_embd = None, p_pos = None, p_n_seq_id = None,
                  p_seq_id = None, seq_id_rows = [], p_logits = None\<rparr>;
             m1 = malloc h; h = snd m1;
             b = (if embd \<noteq> 0 then b\<lparr>p_embd := fst m1\<rparr> else b\<lparr>p_token := fst m1\<rparr>)
         in if fst m1 = None then (Inl OutOfMemoryError, R, free h batch)
            else
              (let m2 = malloc h; h = snd m2; b = b\<lparr>p_pos := fst m2\<rparr>
               in if fst m2 = None then (Inl OutOfMemoryError, R, free h batch)
                  else
                    (let m3 = malloc h; h = snd m3; b = b\<lparr>p_n_seq_id := fst m3\<rparr>
                     in if fst m3 = None then (Inl OutOfMemoryError, R, free h batch)
                        else
                          (let m4 = malloc h; h = snd m4; b = b\<lparr>p_seq_id := fst m4\<rparr>
                           in if fst m4 = None then (Inl OutOfMemoryError, R, free h batch)
                              else
                                (let rows = alloc_rows (nat n_tokens) [] h; h = snd rows
                                 in case fst rows of
                                      Inl u \<Rightarrow> (Inl OutOfMemoryError, R, free h batch)
                                    | Inr ps \<Rightarrow>
                                        (let b = b\<lparr>seq_id_rows := ps\<rparr>;
                                             m5 = malloc h; h = snd m5;
                                             b = b\<lparr>p_logits := fst m5\<rparr>
                                         in if fst m5 = None
                                            then (Inl OutOfMemoryError, R, free h batch)
                                            else
                                              (Inr batch,
                                               R\<lparr>g_batch_n_tokens :=
                                                    (g_batch_n_tokens R)(batch \<mapsto> n_tokens),
                                                  g_batch_n_seq_max :=
                                                    (g_batch_n_seq_max R)(batch \<mapsto> n_seq_max)\<rparr>,
                                               h\<lparr>batches := (batches h)(batch \<mapsto> b)\<rparr>))))))))"

text \<open>
  \<^verbatim>\<open>free_batch\<close>, the release path of the same buffers. The pointer is taken to be one
  that \<^verbatim>\<open>new_batch\<close> returned and that is still live (anything else is undefined in the
  source; the model leaves the heap alone then). The rows freed are the first
  \<open>n_tokens\<close> entries of the \<^verbatim>\<open>seq_id\<close> array, \<open>n_tokens\<close> read from the registry.
\<close>

definition free_batch :: "registries \<Rightarrow> heap \<Rightarrow> handle \<Rightarrow> registries \<times> heap" where
  "free_batch R h batch_pointer =
     (let batch = batch_pointer
      in if batch = 0 then (R, h)
         else
           (let n_tokens = (case g_batch_n_tokens R batch of Some v \<Rightarrow> v | None \<Rightarrow> 0);
                R = R\<lparr>g_batch_n_tokens := (g_batch_n_tokens R)(batch := None),
                      g_batch_n_seq_max := (g_batch_n_seq_max R)(batch := None)\<rparr>
            in case batches h batch of
                 None \<Rightarrow> (R, h)
               | Some b \<Rightarrow>
                   (let h = free_if h (p_token b);
                        h = free_if h (p_embd b);
                        h = free_if h (p_pos b);
                        h = (case p_seq_id b of
                               None \<Rightarrow> h
                             | Some a \<Rightarrow> free (fold (\<lambda>p h. free h p)
                                                 (take (nat n_tokens) (seq_id_rows b)) h) a);
                        h = free_if h (p_n_seq_id b);
                        h = free_if h (p_logits b);
                        h = free h batch
                    in (R, h\<lparr>batches := (batches h)(batch := None)\<rparr>))))"

text \<open>A heap with nothing allocated, whose \<^verbatim>\<open>malloc\<close> calls follow the given plan.\<close>

definition empty_heap :: "bool list \<Rightarrow> heap" where
  "empty_heap plan = \<lparr>live = [], next_addr = 100, malloc_plan = plan, batches = Map.empty\<rparr>"

definition no_regs :: registries where
  "no_regs = \<lparr>g_batch_n_tokens = Map.empty, g_batch_n_seq_max = Map.empty,
              g_ctx_n_batch = Map.empty, g_ctx_n_ctx = Map.empty\<rparr>"

section \<open>A scripted engine for concrete runs\<close>

text \<open>
  An engine whose state lists the return codes of the \<^verbatim>\<open>llama_decode\<close> calls to come and
  the tokens the sampler will draw (0 once a list is used up). It tokenizes one token
  per byte; token 0 is end-of-generation and token 1 end-of-turn.
\<close>

record script =
  rcs :: "int list"
  samples :: "llama_token list"

definition scripted_engine :: "32 word \<Rightarrow> script engine" where
  "scripted_engine n_ctx =
     \<lparr>llama_n_ctx = (\<lambda>c. n_ctx),
      llama_get_model = (\<lambda>c. c),
      llama_decode = (\<lambda>e c b. case rcs e of [] \<Rightarrow> (0, e) | rc # rest \<Rightarrow> (rc, e\<lparr>rcs := rest\<rparr>)),
      llama_kv_cache_clear = (\<lambda>e c. e),
      common_tokenize = (\<lambda>c text. map uint text),
      llama_sampler_sample =
        (\<lambda>e smpl c. case samples e of [] \<Rightarrow> (0, e) | t # rest \<Rightarrow> (t, e\<lparr>samples := rest\<rparr>)),
      llama_token_is_eog = (\<lambda>m t. t = 0),
      llama_token_eot = (\<lambda>m. 1),
      common_token_to_piece = (\<lambda>c t. [word_of_int t])\<rparr>"

definition demo_regs :: "int \<Rightarrow> int \<Rightarrow> int \<Rightarrow> registries" where
  "demo_regs n_ctx n_batch capacity =
     \<lparr>g_batch_n_tokens = [2 \<mapsto> capacity], g_batch_n_seq_max = [2 \<mapsto> 1],
      g_ctx_n_batch = [3 \<mapsto> n_batch], g_ctx_n_ctx = [3 \<mapsto> n_ctx]\<rparr>"

definition init_state :: "'e \<Rightarrow> 'e state" where
  "init_state e =
     \<lparr>eng = e, cached_token_chars = [], batch_mem = (\<lambda>h. []), decode_calls = [],
      decode_rcs = []\<rparr>"

text \<open>An engine that accepts every batch and keeps no state.\<close>

definition accepting_engine :: "32 word \<Rightarrow> unit engine" where
  "accepting_engine n_ctx =
     \<lparr>llama_n_ctx = (\<lambda>c. n_ctx),
      llama_get_model = (\<lambda>c. c),
      llama_decode = (\<lambda>e c b. (0, e)),
      llama_kv_cache_clear = (\<lambda>e c. e),
      common_tokenize = (\<lambda>c text. map uint text),
      llama_sampler_sample = (\<lambda>e smpl c. (0, e)),
      llama_token_is_eog = (\<lambda>m t. t = 0),
      llama_token_eot = (\<lambda>m. 1),
      common_token_to_piece = (\<lambda>c t. [word_of_int t])\<rparr>"

text \<open>
  The prompt budget in the words of the specification: \<open>n_ctx - n_len - 8\<close>, clamped to at
  least 64, and to \<open>n_ctx - 64\<close> when the context is smaller than 64 plus the margin.
\<close>

definition max_prompt_spec :: "int \<Rightarrow> int \<Rightarrow> int" where
  "max_prompt_spec n_ctx n_len =
     (if n_ctx < 64 + 8 then n_ctx - 64 else max 64 (n_ctx - n_len - 8))"

section \<open>The chunk layout\<close>

lemma fold_batch_add:
  "fold (\<lambda>i b. common_batch_add b (f i) (g i) ids lg) xs b0 =
     b0 @ map (\<lambda>i. \<lparr>tok = f i, pos = g i, seq_ids = ids, logits = lg\<rparr>) xs"
  by (induction xs arbitrary: b0) (simp_all add: common_batch_add_def)

lemma fill_chunk_ignores_old:
  "fill_chunk b tokens pos0 w done t = fill_chunk [] tokens pos0 w done t"
  by (simp add: fill_chunk_def common_batch_clear_def)

lemma fill_chunk_length: "0 \<le> t \<Longrightarrow> length (fill_chunk b tokens pos0 w done t) = nat t"
  by (simp add: fill_chunk_def common_batch_clear_def fold_batch_add Let_def)

lemma fill_chunk_eq:
  assumes "0 < t" "done + t \<le> int (length tokens)"
  shows "fill_chunk b tokens pos0 w done t = map (rec_at tokens pos0 w) [done..done + t - 1]"
proof (rule nth_equalityI)
  show "length (fill_chunk b tokens pos0 w done t) =
        length (map (rec_at tokens pos0 w) [done..done + t - 1])"
    using assms by (simp add: fill_chunk_length)
next
  fix i assume "i < length (fill_chunk b tokens pos0 w done t)"
  then have i: "i < nat t" using assms by (simp add: fill_chunk_length)
  then have a: "[0..t - 1] ! i = int i" "[done..done + t - 1] ! i = done + int i"
    by simp_all
  show "fill_chunk b tokens pos0 w done t ! i = map (rec_at tokens pos0 w) [done..done + t - 1] ! i"
    using i a assms
    by (auto simp add: fill_chunk_def common_batch_clear_def fold_batch_add Let_def rec_at_def
        nth_list_update)
qed


lemma chunk_cap_pos: "1 \<le> chunk_cap nb bc"
  by (simp add: chunk_cap_def)

lemma chunks_from_step:
  "d < int (length tokens) \<Longrightarrow>
   chunks_from tokens pos0 w nb bc d =
     fill_chunk [] tokens pos0 w d (min (chunk_cap nb bc) (int (length tokens) - d)) #
     chunks_from tokens pos0 w nb bc (d + min (chunk_cap nb bc) (int (length tokens) - d))"
  by (subst chunks_from.simps) (simp add: Let_def chunk_cap_def)

lemma chunks_from_stop:
  "\<not> d < int (length tokens) \<Longrightarrow> chunks_from tokens pos0 w nb bc d = []"
  by (subst chunks_from.simps) (simp add: Let_def)

lemma decode_chunks_trace:
  "decode_chunks E ctx batch tokens pos0 w nb bc d s = (ok, s') \<Longrightarrow>
   \<exists>chunks rest. decode_calls s' = decode_calls s @ chunks \<and>
      chunks_from tokens pos0 w nb bc d = chunks @ rest \<and> (ok \<longrightarrow> rest = []) \<and>
      (d < int (length tokens) \<longrightarrow> chunks \<noteq> [])"
proof (induction E ctx batch tokens pos0 w nb bc d s arbitrary: ok s' rule: decode_chunks.induct)
  case (1 E ctx batch tokens pos0 w nb bc d s)
  let ?n = "int (length tokens)"
  show ?case
  proof (cases "d < ?n")
    case False
    with "1.prems" have "ok" "s' = s"
      by (simp_all add: decode_chunks.simps [of E ctx batch tokens pos0 w nb bc d s])
    with False show ?thesis by (simp add: chunks_from_stop)
  next
    case True
    define t where "t = min (chunk_cap nb bc) (?n - d)"
    define b where "b = fill_chunk (batch_mem s batch) tokens pos0 w d t"
    define r where "r = llama_decode E (eng s) ctx b"
    define s1 where "s1 = s\<lparr>eng := snd r, batch_mem := (batch_mem s)(batch := b),
                       decode_calls := decode_calls s @ [b],
                       decode_rcs := decode_rcs s @ [fst r]\<rparr>"
    have b': "b = fill_chunk [] tokens pos0 w d t"
      unfolding b_def by (rule fill_chunk_ignores_old)
    have unfold: "decode_chunks E ctx batch tokens pos0 w nb bc d s =
        (if fst r \<noteq> 0 then (False, s1)
         else decode_chunks E ctx batch tokens pos0 w nb bc (d + t) s1)"
      using True
      by (subst decode_chunks.simps) (simp add: Let_def t_def b_def r_def s1_def chunk_cap_def)
    have cf: "chunks_from tokens pos0 w nb bc d = b # chunks_from tokens pos0 w nb bc (d + t)"
      using True by (simp add: chunks_from_step b' t_def)
    show ?thesis
    proof (cases "fst r \<noteq> 0")
      case True
      with unfold "1.prems" have "\<not> ok" "s' = s1" by simp_all
      then show ?thesis using cf by (simp add: s1_def)
    next
      case False
      with unfold "1.prems"
      have rec: "decode_chunks E ctx batch tokens pos0 w nb bc (d + t) s1 = (ok, s')" by simp
      have "\<exists>chunks rest. decode_calls s' = decode_calls s1 @ chunks \<and>
         chunks_from tokens pos0 w nb bc (d + t) = chunks @ rest \<and> (ok \<longrightarrow> rest = []) \<and>
         (d + t < int (length tokens) \<longrightarrow> chunks \<noteq> [])"
        using "1.IH" [where ok = ok and s' = s', OF _ \<open>d < ?n\<close> _ _ _ _ _ rec] False
        by (simp add: t_def b_def r_def s1_def chunk_cap_def)
      then obtain chunks rest where
        "decode_calls s' = decode_calls s1 @ chunks"
        "chunks_from tokens pos0 w nb bc (d + t) = chunks @ rest" "ok \<longrightarrow> rest = []"
        by blast
      then have "decode_calls s' = decode_calls s @ (b # chunks) \<and>
         chunks_from tokens pos0 w nb bc d = (b # chunks) @ rest \<and> (ok \<longrightarrow> rest = []) \<and>
         b # chunks \<noteq> []"
        using cf by (simp add: s1_def)
      then show ?thesis by blast
    qed
  qed
qed


text \<open>
  The return codes the loop logs: one per call, every code but the last is 0 (a call is
  made only after all earlier ones were accepted), all are 0 when the loop returns
  \<^verbatim>\<open>true\<close>, and the last is not 0 when it returns \<^verbatim>\<open>false\<close>.
\<close>

lemma decode_chunks_rcs:
  "decode_chunks E ctx batch tokens pos0 w nb bc d s = (ok, s') \<Longrightarrow>
   \<exists>chunks rcs. decode_calls s' = decode_calls s @ chunks \<and>
      decode_rcs s' = decode_rcs s @ rcs \<and> length rcs = length chunks \<and>
      (\<forall>rc \<in> set (butlast rcs). rc = 0) \<and> (ok \<longrightarrow> (\<forall>rc \<in> set rcs. rc = 0)) \<and>
      (\<not> ok \<longrightarrow> rcs \<noteq> [] \<and> last rcs \<noteq> 0)"
proof (induction E ctx batch tokens pos0 w nb bc d s arbitrary: ok s' rule: decode_chunks.induct)
  case (1 E ctx batch tokens pos0 w nb bc d s)
  let ?n = "int (length tokens)"
  show ?case
  proof (cases "d < ?n")
    case False
    with "1.prems" have "ok" "s' = s"
      by (simp_all add: decode_chunks.simps [of E ctx batch tokens pos0 w nb bc d s])
    then show ?thesis by simp
  next
    case True
    define t where "t = min (chunk_cap nb bc) (?n - d)"
    define b where "b = fill_chunk (batch_mem s batch) tokens pos0 w d t"
    define r where "r = llama_decode E (eng s) ctx b"
    define s1 where "s1 = s\<lparr>eng := snd r, batch_mem := (batch_mem s)(batch := b),
                       decode_calls := decode_calls s @ [b],
                       decode_rcs := decode_rcs s @ [fst r]\<rparr>"
    have unfold: "decode_chunks E ctx batch tokens pos0 w nb bc d s =
        (if fst r \<noteq> 0 then (False, s1)
         else decode_chunks E ctx batch tokens pos0 w nb bc (d + t) s1)"
      using True
      by (subst decode_chunks.simps) (simp add: Let_def t_def b_def r_def s1_def chunk_cap_def)
    show ?thesis
    proof (cases "fst r \<noteq> 0")
      case True
      with unfold "1.prems" have "\<not> ok" "s' = s1" by simp_all
      with True have "decode_calls s' = decode_calls s @ [b] \<and>
          decode_rcs s' = decode_rcs s @ [fst r] \<and> length [fst r] = length [b] \<and>
          (\<forall>rc \<in> set (butlast [fst r]). rc = 0) \<and> (ok \<longrightarrow> (\<forall>rc \<in> set [fst r]. rc = 0)) \<and>
          (\<not> ok \<longrightarrow> [fst r] \<noteq> [] \<and> last [fst r] \<noteq> 0)"
        by (simp add: s1_def)
      then show ?thesis by blast
    next
      case False
      then have r0: "fst r = 0" by simp
      from False unfold "1.prems"
      have rec: "decode_chunks E ctx batch tokens pos0 w nb bc (d + t) s1 = (ok, s')" by simp
      have nf: "\<not> fst (llama_decode E (eng s) ctx
                   (fill_chunk (batch_mem s batch) tokens pos0 w d
                      (min (max 1 (min nb (if 0 < bc then bc else nb))) (?n - d)))) \<noteq> 0"
        using r0 by (simp add: r_def b_def t_def chunk_cap_def)
      have rec': "decode_chunks E ctx batch tokens pos0 w nb bc
            (d + min (max 1 (min nb (if 0 < bc then bc else nb))) (?n - d))
            (s\<lparr>eng := snd (llama_decode E (eng s) ctx
                   (fill_chunk (batch_mem s batch) tokens pos0 w d
                      (min (max 1 (min nb (if 0 < bc then bc else nb))) (?n - d)))),
               batch_mem := (batch_mem s)(batch :=
                   fill_chunk (batch_mem s batch) tokens pos0 w d
                      (min (max 1 (min nb (if 0 < bc then bc else nb))) (?n - d))),
               decode_calls := decode_calls s @
                   [fill_chunk (batch_mem s batch) tokens pos0 w d
                      (min (max 1 (min nb (if 0 < bc then bc else nb))) (?n - d))],
               decode_rcs := decode_rcs s @
                   [fst (llama_decode E (eng s) ctx
                   (fill_chunk (batch_mem s batch) tokens pos0 w d
                      (min (max 1 (min nb (if 0 < bc then bc else nb))) (?n - d))))]\<rparr>) = (ok, s')"
        using rec by (simp add: t_def b_def r_def s1_def chunk_cap_def)
      from "1.IH" [OF refl True refl refl refl refl nf rec']
      obtain chunks rcs where ih:
        "decode_calls s' = decode_calls s1 @ chunks" "decode_rcs s' = decode_rcs s1 @ rcs"
        "length rcs = length chunks" "\<forall>rc \<in> set (butlast rcs). rc = 0"
        "ok \<longrightarrow> (\<forall>rc \<in> set rcs. rc = 0)" "\<not> ok \<longrightarrow> rcs \<noteq> [] \<and> last rcs \<noteq> 0"
        unfolding t_def b_def r_def s1_def chunk_cap_def by blast
      have bl: "\<forall>rc \<in> set (butlast (fst r # rcs)). rc = 0"
        using ih(4) r0 by (cases rcs) simp_all
      have "decode_calls s' = decode_calls s @ (b # chunks) \<and>
          decode_rcs s' = decode_rcs s @ (fst r # rcs) \<and>
          length (fst r # rcs) = length (b # chunks) \<and>
          (\<forall>rc \<in> set (butlast (fst r # rcs)). rc = 0) \<and>
          (ok \<longrightarrow> (\<forall>rc \<in> set (fst r # rcs). rc = 0)) \<and>
          (\<not> ok \<longrightarrow> fst r # rcs \<noteq> [] \<and> last (fst r # rcs) \<noteq> 0)"
        using ih bl r0 by (simp add: s1_def)
      then show ?thesis by blast
    qed
  qed
qed

lemma chunks_from_sizes:
  "ch \<in> set (chunks_from tokens pos0 w nb bc d) \<Longrightarrow>
   0 < length ch \<and> int (length ch) \<le> chunk_cap nb bc"
proof (induction tokens pos0 w nb bc d rule: chunks_from.induct)
  case (1 tokens pos0 w nb bc d)
  show ?case
  proof (cases "d < int (length tokens)")
    case False
    with "1.prems" show ?thesis by (simp add: chunks_from_stop)
  next
    case True
    let ?t = "min (chunk_cap nb bc) (int (length tokens) - d)"
    have t: "0 < ?t" using True chunk_cap_pos [of nb bc] by simp
    from "1.prems" True
    have "ch = fill_chunk [] tokens pos0 w d ?t \<or>
          ch \<in> set (chunks_from tokens pos0 w nb bc (d + ?t))"
      by (simp add: chunks_from_step)
    then show ?thesis
    proof
      assume "ch = fill_chunk [] tokens pos0 w d ?t"
      then show ?thesis using t by (simp add: fill_chunk_length)
    next
      assume "ch \<in> set (chunks_from tokens pos0 w nb bc (d + ?t))"
      then show ?thesis
        using "1.IH" [OF _ True] by (simp add: chunk_cap_def)
    qed
  qed
qed

lemma ceil_step:
  fixes c m :: int
  assumes "1 \<le> c" "0 < m"
  shows "1 + - ((min c m - m) div c) = - ((- m) div c)"
proof (cases "c \<le> m")
  case True
  have "(- m + c) div c = (- m) div c + 1"
    using assms div_add_self2 [of c "- m"] by simp
  with True show ?thesis by (simp add: algebra_simps)
next
  case False
  then have "(- m) div c = - 1" using assms
    by (intro int_div_pos_eq [where r = "c - m"]) simp_all
  with False show ?thesis by simp
qed

lemma chunks_from_count:
  "d \<le> int (length tokens) \<Longrightarrow>
   int (length (chunks_from tokens pos0 w nb bc d)) = - ((d - int (length tokens)) div chunk_cap nb bc)"
proof (induction tokens pos0 w nb bc d rule: chunks_from.induct)
  case (1 tokens pos0 w nb bc d)
  let ?n = "int (length tokens)"
  show ?case
  proof (cases "d < ?n")
    case False
    with "1.prems" have "d = ?n" by simp
    then show ?thesis by (simp add: chunks_from_stop)
  next
    case True
    let ?t = "min (chunk_cap nb bc) (?n - d)"
    have "int (length (chunks_from tokens pos0 w nb bc (d + ?t))) =
          - ((d + ?t - ?n) div chunk_cap nb bc)"
      using "1.IH" [OF _ True] by (simp add: chunk_cap_def)
    moreover have "1 + - ((?t - (?n - d)) div chunk_cap nb bc) = - ((- (?n - d)) div chunk_cap nb bc)"
      using True by (intro ceil_step chunk_cap_pos) simp
    ultimately show ?thesis
      using True by (simp add: chunks_from_step algebra_simps)
  qed
qed

lemma chunks_from_concat:
  "0 \<le> d \<Longrightarrow> concat (chunks_from tokens pos0 w nb bc d) =
     map (rec_at tokens pos0 w) [d..int (length tokens) - 1]"
proof (induction tokens pos0 w nb bc d rule: chunks_from.induct)
  case (1 tokens pos0 w nb bc d)
  let ?n = "int (length tokens)"
  show ?case
  proof (cases "d < ?n")
    case False
    then show ?thesis by (simp add: chunks_from_stop)
  next
    case True
    let ?t = "min (chunk_cap nb bc) (?n - d)"
    have t: "0 < ?t" "d + ?t \<le> ?n" using True chunk_cap_pos [of nb bc] by simp_all
    have "concat (chunks_from tokens pos0 w nb bc (d + ?t)) =
          map (rec_at tokens pos0 w) [d + ?t..?n - 1]"
      using "1.IH" [OF _ True] "1.prems" t by (simp add: chunk_cap_def)
    moreover have "fill_chunk [] tokens pos0 w d ?t = map (rec_at tokens pos0 w) [d..d + ?t - 1]"
      using t by (rule fill_chunk_eq)
    moreover have "[d..?n - 1] = [d..d + ?t - 1] @ [d + ?t..?n - 1]"
      using t upto_split2 [of d "d + ?t - 1" "?n - 1"] by simp
    ultimately show ?thesis
      using True by (simp add: chunks_from_step)
  qed
qed

lemma take_upto: "0 \<le> m \<Longrightarrow> m \<le> k \<Longrightarrow> take (nat m) [0..k - 1] = [0..m - 1]"
  by (rule nth_equalityI) simp_all

lemma butlast_upto: "i \<le> j \<Longrightarrow> butlast [i..j] = [i..j - 1]"
  by (simp add: upto_rec2)

section \<open>Chunked decode: what reaches the engine\<close>

lemma decode_tokens_chunked_trace:
  assumes "decode_tokens_chunked E R ctx batch tokens pos0 w s = (ok, s')"
  shows "\<exists>calls rest. decode_calls s' = decode_calls s @ calls \<and>
           chunks_from tokens pos0 w (snd (get_ctx_limits E R ctx)) (get_batch_capacity R batch) 0
             = calls @ rest \<and> (ok \<longrightarrow> rest = [])"
proof (cases "ctx = 0 \<or> batch = 0")
  case True
  with assms have "s' = s" "\<not> ok" by (auto simp: decode_tokens_chunked_def)
  then show ?thesis by simp
next
  case False
  show ?thesis
  proof (cases "tokens = []")
    case True
    with False assms have "s' = s" by (auto simp: decode_tokens_chunked_def)
    with True show ?thesis by (simp add: chunks_from_stop)
  next
    case nonempty: False
    with False assms
    have "decode_chunks E ctx batch tokens pos0 w (snd (get_ctx_limits E R ctx))
            (get_batch_capacity R batch) 0 s = (ok, s')"
      by (simp add: decode_tokens_chunked_def Let_def split_beta)
    from decode_chunks_trace [OF this] show ?thesis by blast
  qed
qed

lemma decode_tokens_chunked_rcs:
  assumes "decode_tokens_chunked E R ctx batch tokens pos0 w s = (ok, s')"
  shows "\<exists>calls rcs. decode_calls s' = decode_calls s @ calls \<and>
           decode_rcs s' = decode_rcs s @ rcs \<and> length rcs = length calls \<and>
           (\<forall>rc \<in> set (butlast rcs). rc = 0) \<and> (ok \<longrightarrow> (\<forall>rc \<in> set rcs. rc = 0)) \<and>
           (\<not> ok \<and> ctx \<noteq> 0 \<and> batch \<noteq> 0 \<longrightarrow> rcs \<noteq> [] \<and> last rcs \<noteq> 0) \<and>
           (ctx = 0 \<or> batch = 0 \<longrightarrow> calls = [] \<and> \<not> ok)"
proof (cases "ctx = 0 \<or> batch = 0")
  case True
  with assms have "s' = s" "\<not> ok" by (auto simp: decode_tokens_chunked_def)
  with True show ?thesis by simp
next
  case False
  show ?thesis
  proof (cases "tokens = []")
    case True
    with False assms have "s' = s" "ok" by (auto simp: decode_tokens_chunked_def)
    with False show ?thesis by simp
  next
    case nonempty: False
    with False assms
    have "decode_chunks E ctx batch tokens pos0 w (snd (get_ctx_limits E R ctx))
            (get_batch_capacity R batch) 0 s = (ok, s')"
      by (simp add: decode_tokens_chunked_def Let_def split_beta)
    from decode_chunks_rcs [OF this] False show ?thesis by blast
  qed
qed

lemma map_add_upto: "map (\<lambda>i. a + i) [0..k] = [a..a + k]"
  by (rule nth_equalityI) simp_all

lemma map_nth_upto: "map (\<lambda>i. xs ! nat i) [0..int (length xs) - 1] = xs"
  by (rule nth_equalityI) simp_all

lemma map_pos_rec_at: "map pos (map (rec_at tokens pos0 w) is) = map (\<lambda>i. pos0 + i) is"
  by (simp add: rec_at_def)

lemma map_tok_rec_at: "map tok (map (rec_at tokens pos0 w) is) = map (\<lambda>i. tokens ! nat i) is"
  by (simp add: rec_at_def)

lemma concat_prefix_layout:
  assumes "chunks_from tokens pos0 w nb bc 0 = calls @ rest"
  shows "concat calls = map (rec_at tokens pos0 w) [0..int (length (concat calls)) - 1] \<and>
         length (concat calls) \<le> length tokens"
proof -
  let ?n = "int (length tokens)"
  have all: "concat calls @ concat rest = map (rec_at tokens pos0 w) [0..?n - 1]"
    using chunks_from_concat [of 0 tokens pos0 w nb bc] assms by simp
  then have "length (concat calls) + length (concat rest) = length tokens"
    by (metis length_append length_map length_upto add_diff_cancel_right' diff_zero nat_int
        diff_add_cancel)
  then have le: "length (concat calls) \<le> length tokens" by simp
  have "concat calls = take (length (concat calls)) (concat calls @ concat rest)" by simp
  also have "\<dots> = map (rec_at tokens pos0 w) (take (length (concat calls)) [0..?n - 1])"
    by (simp only: all take_map)
  also have "take (length (concat calls)) [0..?n - 1] = [0..int (length (concat calls)) - 1]"
    using take_upto [of "int (length (concat calls))" ?n] le by simp
  finally show ?thesis using le by simp
qed


lemma demo_run_ok:
  "fst (decode_tokens_chunked (scripted_engine 1024) (demo_regs 1024 2 8) 3 2 [10, 11, 12] 0 True
            (init_state \<lparr>rcs = [], samples = []\<rparr>))"
  by (simp add: decode_tokens_chunked_def decode_chunks.simps get_ctx_limits_def
      get_batch_capacity_def scripted_engine_def demo_regs_def init_state_def fill_chunk_def
      common_batch_add_def common_batch_clear_def Let_def CHAT_N_BATCH_DEFAULT_def
      CHAT_N_CTX_DEFAULT_def)

lemma demo_chunk_cap: "chunk_cap_of (scripted_engine 1024) (demo_regs 1024 2 8) 3 2 = 2"
  by (simp add: chunk_cap_of_def chunk_cap_def get_ctx_limits_def get_batch_capacity_def
      scripted_engine_def demo_regs_def CHAT_N_BATCH_DEFAULT_def CHAT_N_CTX_DEFAULT_def)

text \<open>
  C1, as it holds of the source. \<open>decode_tokens_chunked\<close> appends to the engine's call
  history only batches of at most \<open>chunk_cap_of\<close> slots, and never more than
  \<open>\<lceil>n / chunk_cap_of\<rceil>\<close> of them, \<open>n\<close> being the number of tokens. Every call but the last
  one issued was accepted by the engine (return code 0): the scheduler stops at the
  first call the engine rejects. When it returns \<^verbatim>\<open>true\<close>, every call was accepted and
  exactly \<open>\<lceil>n / chunk_cap_of\<rceil>\<close> calls were issued; when it returns \<^verbatim>\<open>false\<close> on non-null
  handles, the last call issued is one the engine rejected. On a null handle it issues
  no call and returns \<^verbatim>\<open>false\<close>. For an empty token sequence it issues no call, and it
  returns \<^verbatim>\<open>true\<close> exactly when both handles are non-null.
\<close>

theorem decode_tokens_chunked_call_count:
  assumes "decode_tokens_chunked E R ctx batch tokens pos0 w s = (ok, s')"
  shows "\<exists>calls rcs. decode_calls s' = decode_calls s @ calls \<and>
           decode_rcs s' = decode_rcs s @ rcs \<and> length rcs = length calls \<and>
           (\<forall>b \<in> set calls. int (length b) \<le> chunk_cap_of E R ctx batch) \<and>
           int (length calls) \<le>
             \<lceil>real (length tokens) / real_of_int (chunk_cap_of E R ctx batch)\<rceil> \<and>
           (\<forall>rc \<in> set (butlast rcs). rc = 0) \<and>
           (ok \<longrightarrow> (\<forall>rc \<in> set rcs. rc = 0) \<and> int (length calls) =
             \<lceil>real (length tokens) / real_of_int (chunk_cap_of E R ctx batch)\<rceil>) \<and>
           (\<not> ok \<and> ctx \<noteq> 0 \<and> batch \<noteq> 0 \<longrightarrow> rcs \<noteq> [] \<and> last rcs \<noteq> 0) \<and>
           (ctx = 0 \<or> batch = 0 \<longrightarrow> calls = [] \<and> \<not> ok) \<and>
           (tokens = [] \<longrightarrow> calls = [] \<and> ok = (ctx \<noteq> 0 \<and> batch \<noteq> 0))"
proof -
  let ?nb = "snd (get_ctx_limits E R ctx)" and ?bc = "get_batch_capacity R batch"
  let ?c = "chunk_cap_of E R ctx batch"
  from decode_tokens_chunked_trace [OF assms] obtain calls rest where
    calls: "decode_calls s' = decode_calls s @ calls"
    and layout: "chunks_from tokens pos0 w ?nb ?bc 0 = calls @ rest"
    and ok: "ok \<longrightarrow> rest = []"
    by blast
  from decode_tokens_chunked_rcs [OF assms] obtain calls' rcs where
    calls': "decode_calls s' = decode_calls s @ calls'"
    and rcs: "decode_rcs s' = decode_rcs s @ rcs" "length rcs = length calls'"
      "\<forall>rc \<in> set (butlast rcs). rc = 0" "ok \<longrightarrow> (\<forall>rc \<in> set rcs. rc = 0)"
      "\<not> ok \<and> ctx \<noteq> 0 \<and> batch \<noteq> 0 \<longrightarrow> rcs \<noteq> [] \<and> last rcs \<noteq> 0"
      "ctx = 0 \<or> batch = 0 \<longrightarrow> calls' = [] \<and> \<not> ok"
    by blast
  from calls calls' have same: "calls' = calls" by simp
  have c: "?c = chunk_cap ?nb ?bc" by (simp add: chunk_cap_of_def)
  have "int (length (chunks_from tokens pos0 w ?nb ?bc 0)) = - ((- int (length tokens)) div ?c)"
    using chunks_from_count [of 0 tokens pos0 w ?nb ?bc] by (simp add: c)
  also have "\<dots> = \<lceil>real_of_int (int (length tokens)) / real_of_int ?c\<rceil>"
    by (simp only: ceiling_divide_eq_div)
  finally have count: "int (length calls) + int (length rest) =
      \<lceil>real (length tokens) / real_of_int ?c\<rceil>"
    by (simp add: layout)
  have sizes: "\<forall>b \<in> set calls. int (length b) \<le> ?c"
    using chunks_from_sizes [of _ tokens pos0 w ?nb ?bc 0] layout by (simp add: c)
  have empty: "tokens = [] \<longrightarrow> calls = [] \<and> ok = (ctx \<noteq> 0 \<and> batch \<noteq> 0)"
    using layout assms by (auto simp: chunks_from_stop decode_tokens_chunked_def split: if_splits)
  have le: "int (length calls) \<le> \<lceil>real (length tokens) / real_of_int ?c\<rceil>"
    using count by simp
  have full: "ok \<longrightarrow> int (length calls) = \<lceil>real (length tokens) / real_of_int ?c\<rceil>"
    using count ok by auto
  from calls rcs sizes le full empty show ?thesis
    unfolding same by (intro exI [of _ calls] exI [of _ rcs]) blast
qed

text \<open>
  C1, two concrete runs with three tokens, \<^verbatim>\<open>n_batch\<close> 2 and batch capacity 8: with
  every decode call accepted, two calls, both with return code 0; on a null context
  handle, no call and the result \<^verbatim>\<open>false\<close>.
\<close>

theorem decode_tokens_chunked_call_count_witness:
  "(\<exists>calls rcs. decode_calls (snd (decode_tokens_chunked (scripted_engine 1024) (demo_regs 1024 2 8) 3 2 [10, 11, 12] 0 True
            (init_state \<lparr>rcs = [], samples = []\<rparr>))) = calls \<and>
      decode_rcs (snd (decode_tokens_chunked (scripted_engine 1024) (demo_regs 1024 2 8) 3 2 [10, 11, 12] 0 True
            (init_state \<lparr>rcs = [], samples = []\<rparr>))) = rcs \<and> int (length calls) = 2 \<and> length rcs = 2 \<and>
      (\<forall>rc \<in> set rcs. rc = 0) \<and> (\<forall>b \<in> set calls. int (length b) \<le> 2)) \<and>
   \<not> fst (decode_tokens_chunked (scripted_engine 1024) (demo_regs 1024 2 8) 0 2 [10, 11, 12] 0 True
            (init_state \<lparr>rcs = [], samples = []\<rparr>)) \<and>
   decode_calls (snd (decode_tokens_chunked (scripted_engine 1024) (demo_regs 1024 2 8) 0 2 [10, 11, 12] 0 True
            (init_state \<lparr>rcs = [], samples = []\<rparr>))) = []"
proof -
  let ?r = "decode_tokens_chunked (scripted_engine 1024) (demo_regs 1024 2 8) 3 2 [10, 11, 12] 0 True
            (init_state \<lparr>rcs = [], samples = []\<rparr>)"
  let ?z = "decode_tokens_chunked (scripted_engine 1024) (demo_regs 1024 2 8) 0 2 [10, 11, 12] 0 True
            (init_state \<lparr>rcs = [], samples = []\<rparr>)"
  have "?r = (True, snd ?r)"
    using demo_run_ok by (simp add: prod_eq_iff)
  from decode_tokens_chunked_call_count [OF this]
  have a: "\<exists>calls rcs. decode_calls (snd ?r) = calls \<and>
      decode_rcs (snd ?r) = rcs \<and> int (length calls) = 2 \<and> length rcs = 2 \<and>
      (\<forall>rc \<in> set rcs. rc = 0) \<and> (\<forall>b \<in> set calls. int (length b) \<le> 2)"
    by (simp add: demo_chunk_cap init_state_def)
  have "?z = (fst ?z, snd ?z)" by simp
  from decode_tokens_chunked_call_count [OF this]
  have b: "\<not> fst ?z \<and> decode_calls (snd ?z) = []"
    by (auto simp add: init_state_def)
  from a b show ?thesis by blast
qed

text \<open>
  C1 as stated fails when the engine rejects a chunk: with three tokens and chunk size 2
  the first \<^verbatim>\<open>llama_decode\<close> returns 1, the loop returns at once, and one call has been
  issued where \<open>\<lceil>3 / 2\<rceil> = 2\<close> were claimed.
\<close>

theorem decode_tokens_chunked_call_count_counterexample:
  "length (decode_calls (snd (decode_tokens_chunked (scripted_engine 1024) (demo_regs 1024 2 8) 3 2 [10, 11, 12] 0 True
            (init_state \<lparr>rcs = [1], samples = []\<rparr>)))) = 1 \<and>
   \<lceil>real (length [10, 11, 12 :: int]) /
     real_of_int (chunk_cap_of (scripted_engine 1024) (demo_regs 1024 2 8) 3 2)\<rceil> = 2"
proof
  show "length (decode_calls (snd (decode_tokens_chunked (scripted_engine 1024) (demo_regs 1024 2 8) 3 2 [10, 11, 12] 0 True
            (init_state \<lparr>rcs = [1], samples = []\<rparr>)))) = 1"
    by (simp add: decode_tokens_chunked_def decode_chunks.simps get_ctx_limits_def
      get_batch_capacity_def scripted_engine_def demo_regs_def init_state_def fill_chunk_def
      common_batch_add_def common_batch_clear_def Let_def CHAT_N_BATCH_DEFAULT_def
      CHAT_N_CTX_DEFAULT_def)
  show "\<lceil>real (length [10, 11, 12 :: int]) /
     real_of_int (chunk_cap_of (scripted_engine 1024) (demo_regs 1024 2 8) 3 2)\<rceil> = 2"
    by (simp add: demo_chunk_cap)
qed

text \<open>
  C2, as it holds of the source. The positions written into the batches that one \<open>decode_tokens_chunked\<close>
  call hands to the engine, in emission order, are the contiguous range
  \<open>[pos0, pos0 + m)\<close> for some \<open>m \<le> n\<close>, without gap or repeat; when the call returns
  \<^verbatim>\<open>true\<close>, \<open>m = n\<close> and the range is \<open>[pos0, pos0 + n)\<close>.
\<close>

theorem decode_tokens_chunked_positions:
  assumes "decode_tokens_chunked E R ctx batch tokens pos0 w s = (ok, s')"
  shows "\<exists>calls m. decode_calls s' = decode_calls s @ calls \<and>
           map pos (concat calls) = [pos0..pos0 + m - 1] \<and>
           0 \<le> m \<and> m \<le> int (length tokens) \<and> (ok \<longrightarrow> m = int (length tokens))"
proof -
  let ?nb = "snd (get_ctx_limits E R ctx)" and ?bc = "get_batch_capacity R batch"
  from decode_tokens_chunked_trace [OF assms] obtain calls rest where
    calls: "decode_calls s' = decode_calls s @ calls"
    and layout: "chunks_from tokens pos0 w ?nb ?bc 0 = calls @ rest"
    and ok: "ok \<longrightarrow> rest = []"
    by blast
  define m where "m = int (length (concat calls))"
  from concat_prefix_layout [OF layout]
  have cc: "concat calls = map (rec_at tokens pos0 w) [0..m - 1]" and le: "m \<le> int (length tokens)"
    by (simp_all add: m_def)
  have "map pos (concat calls) = map (\<lambda>i. pos0 + i) [0..m - 1]"
    by (subst cc) (rule map_pos_rec_at)
  also have "\<dots> = [pos0..pos0 + m - 1]"
    using map_add_upto [of pos0 "m - 1"] by (simp add: algebra_simps)
  finally have positions: "map pos (concat calls) = [pos0..pos0 + m - 1]" .
  have full: "ok \<longrightarrow> m = int (length tokens)"
  proof
    assume ok
    with ok layout have "concat calls = map (rec_at tokens pos0 w) [0..int (length tokens) - 1]"
      using chunks_from_concat [of 0 tokens pos0 w ?nb ?bc] by simp
    then have "length (concat calls) = length tokens" by simp
    then show "m = int (length tokens)" by (simp add: m_def)
  qed
  from calls positions le full show ?thesis
    by (intro exI [of _ calls] exI [of _ m]) (simp add: m_def)
qed


text \<open>C2, concrete run: three tokens from position 0 in two chunks carry positions 0, 1, 2.\<close>

theorem decode_tokens_chunked_positions_witness:
  "\<exists>calls. decode_calls (snd (decode_tokens_chunked (scripted_engine 1024) (demo_regs 1024 2 8) 3 2 [10, 11, 12] 0 True
            (init_state \<lparr>rcs = [], samples = []\<rparr>))) = calls \<and> map pos (concat calls) = [0, 1, 2]"
proof -
  let ?r = "decode_tokens_chunked (scripted_engine 1024) (demo_regs 1024 2 8) 3 2 [10, 11, 12] 0 True
            (init_state \<lparr>rcs = [], samples = []\<rparr>)"
  have "?r = (True, snd ?r)"
    using demo_run_ok by (simp add: prod_eq_iff)
  from decode_tokens_chunked_positions [OF this]
  show ?thesis
    by (auto simp add: init_state_def upto.simps)
qed

text \<open>
  C2 as stated fails when the engine rejects the first chunk: only positions 0 and 1 have
  been written, not the range \<open>[0, 3)\<close>.
\<close>

theorem decode_tokens_chunked_positions_counterexample:
  "map pos (concat (decode_calls (snd (decode_tokens_chunked (scripted_engine 1024) (demo_regs 1024 2 8) 3 2 [10, 11, 12] 0 True
            (init_state \<lparr>rcs = [1], samples = []\<rparr>))))) = [0, 1] \<and>
   [0..0 + int (length [10, 11, 12 :: int]) - 1] = [0, 1, 2]"
proof
  show "map pos (concat (decode_calls (snd (decode_tokens_chunked (scripted_engine 1024) (demo_regs 1024 2 8) 3 2 [10, 11, 12] 0 True
            (init_state \<lparr>rcs = [1], samples = []\<rparr>))))) = [0, 1]"
    by (simp add: decode_tokens_chunked_def decode_chunks.simps get_ctx_limits_def
      get_batch_capacity_def scripted_engine_def demo_regs_def init_state_def fill_chunk_def
      common_batch_add_def common_batch_clear_def Let_def CHAT_N_BATCH_DEFAULT_def
      CHAT_N_CTX_DEFAULT_def upto.simps)
  show "[0..0 + int (length [10, 11, 12 :: int]) - 1] = [0, 1, 2]"
    by (simp add: upto.simps)
qed

text \<open>
  C3, as it holds of the source. When \<open>want_logits_last_token\<close> is false, no slot of any batch handed to the
  engine has its logits flag set, whether or not the call succeeds. When the call returns
  \<^verbatim>\<open>true\<close> on a non-empty token sequence, the last slot of the last batch carries the flag
  exactly when \<open>want_logits_last_token\<close> is true, and no other slot of any batch carries it.
\<close>

theorem decode_tokens_chunked_logits:
  assumes "decode_tokens_chunked E R ctx batch tokens pos0 w s = (ok, s')"
  shows "\<exists>calls. decode_calls s' = decode_calls s @ calls \<and>
           (\<not> w \<longrightarrow> (\<forall>b \<in> set calls. \<forall>r \<in> set b. \<not> logits r)) \<and>
           (ok \<and> tokens \<noteq> [] \<longrightarrow>
              calls \<noteq> [] \<and> last calls \<noteq> [] \<and> logits (last (last calls)) = w \<and>
              (\<forall>b \<in> set (butlast calls). \<forall>r \<in> set b. \<not> logits r) \<and>
              (\<forall>r \<in> set (butlast (last calls)). \<not> logits r))"
proof -
  let ?nb = "snd (get_ctx_limits E R ctx)" and ?bc = "get_batch_capacity R batch"
  let ?n = "int (length tokens)"
  from decode_tokens_chunked_trace [OF assms] obtain calls rest where
    calls: "decode_calls s' = decode_calls s @ calls"
    and layout: "chunks_from tokens pos0 w ?nb ?bc 0 = calls @ rest"
    and ok: "ok \<longrightarrow> rest = []"
    by blast
  have unflagged: "\<not> w \<longrightarrow> (\<forall>b \<in> set calls. \<forall>r \<in> set b. \<not> logits r)"
  proof (intro impI ballI)
    fix b r assume "\<not> w" "b \<in> set calls" "r \<in> set b"
    then have "r \<in> set (concat calls)" by auto
    then have "r \<in> set (map (rec_at tokens pos0 w) [0..int (length (concat calls)) - 1])"
      using concat_prefix_layout [OF layout] by simp
    with \<open>\<not> w\<close> show "\<not> logits r" by (auto simp: rec_at_def)
  qed
  have last: "ok \<and> tokens \<noteq> [] \<longrightarrow>
              calls \<noteq> [] \<and> last calls \<noteq> [] \<and> logits (last (last calls)) = w \<and>
              (\<forall>b \<in> set (butlast calls). \<forall>r \<in> set b. \<not> logits r) \<and>
              (\<forall>r \<in> set (butlast (last calls)). \<not> logits r)"
  proof
    assume a: "ok \<and> tokens \<noteq> []"
    with ok layout have full: "chunks_from tokens pos0 w ?nb ?bc 0 = calls" by simp
    have n: "0 < ?n" using a by simp
    have cc: "concat calls = map (rec_at tokens pos0 w) [0..?n - 1]"
      using chunks_from_concat [of 0 tokens pos0 w ?nb ?bc] full by simp
    have split: "[0..?n - 1] = [0..?n - 2] @ [?n - 1]"
      using n upto_rec2 [of 0 "?n - 1"] by simp
    have ne: "calls \<noteq> []" using cc n by auto
    have lne: "last calls \<noteq> []"
      using chunks_from_sizes [of "last calls" tokens pos0 w ?nb ?bc 0] full ne by auto
    have "concat calls = concat (butlast calls) @ butlast (last calls) @ [last (last calls)]"
      using ne lne by (metis append_butlast_last_id concat_append concat.simps append_Nil2)
    then have "(concat (butlast calls) @ butlast (last calls)) @ [last (last calls)] =
        map (rec_at tokens pos0 w) [0..?n - 2] @ [rec_at tokens pos0 w (?n - 1)]"
      using cc split by simp
    then have front: "concat (butlast calls) @ butlast (last calls) =
          map (rec_at tokens pos0 w) [0..?n - 2]"
      and final: "last (last calls) = rec_at tokens pos0 w (?n - 1)"
      by (simp_all only: append1_eq_conv)
    have "\<forall>r \<in> set (concat (butlast calls) @ butlast (last calls)). \<not> logits r"
      unfolding front by (auto simp: rec_at_def)
    then have "(\<forall>b \<in> set (butlast calls). \<forall>r \<in> set b. \<not> logits r) \<and>
               (\<forall>r \<in> set (butlast (last calls)). \<not> logits r)"
      by auto
    with ne lne final show "calls \<noteq> [] \<and> last calls \<noteq> [] \<and> logits (last (last calls)) = w \<and>
              (\<forall>b \<in> set (butlast calls). \<forall>r \<in> set b. \<not> logits r) \<and>
              (\<forall>r \<in> set (butlast (last calls)). \<not> logits r)"
      by (simp add: rec_at_def)
  qed
  from calls unflagged last show ?thesis by blast
qed

text \<open>C3, concrete run: of the two chunks only the last slot of the second is flagged.\<close>

theorem decode_tokens_chunked_logits_witness:
  "\<exists>calls. decode_calls (snd (decode_tokens_chunked (scripted_engine 1024) (demo_regs 1024 2 8) 3 2 [10, 11, 12] 0 True
            (init_state \<lparr>rcs = [], samples = []\<rparr>))) = calls \<and> calls \<noteq> [] \<and> last calls \<noteq> [] \<and>
     logits (last (last calls)) \<and> length (filter logits (concat calls)) = 1"
proof -
  let ?r = "decode_tokens_chunked (scripted_engine 1024) (demo_regs 1024 2 8) 3 2 [10, 11, 12] 0 True
            (init_state \<lparr>rcs = [], samples = []\<rparr>)"
  have "?r = (True, snd ?r)"
    using demo_run_ok by (simp add: prod_eq_iff)
  from decode_tokens_chunked_logits [OF this]
  have "decode_calls (snd ?r) \<noteq> [] \<and> last (decode_calls (snd ?r)) \<noteq> [] \<and>
        logits (last (last (decode_calls (snd ?r))))"
    by (simp add: init_state_def)
  moreover have "length (filter logits (concat (decode_calls (snd ?r)))) = 1"
    by (simp add: decode_tokens_chunked_def decode_chunks.simps get_ctx_limits_def
      get_batch_capacity_def scripted_engine_def demo_regs_def init_state_def fill_chunk_def
      common_batch_add_def common_batch_clear_def Let_def CHAT_N_BATCH_DEFAULT_def
      CHAT_N_CTX_DEFAULT_def upto.simps)
  ultimately show ?thesis by simp
qed

text \<open>
  C3 as stated fails when the engine rejects the first chunk: logits were asked for, the
  token sequence is not empty, and no slot handed to the engine carries the flag.
\<close>

theorem decode_tokens_chunked_logits_counterexample:
  "filter logits (concat (decode_calls (snd (decode_tokens_chunked (scripted_engine 1024) (demo_regs 1024 2 8) 3 2 [10, 11, 12] 0 True
            (init_state \<lparr>rcs = [1], samples = []\<rparr>))))) = []"
  by (simp add: decode_tokens_chunked_def decode_chunks.simps get_ctx_limits_def
      get_batch_capacity_def scripted_engine_def demo_regs_def init_state_def fill_chunk_def
      common_batch_add_def common_batch_clear_def Let_def CHAT_N_BATCH_DEFAULT_def
      CHAT_N_CTX_DEFAULT_def upto.simps)

section \<open>Registry fallback\<close>

text \<open>
  The \<^verbatim>\<open>int\<close> that a \<^verbatim>\<open>uint32_t\<close> becomes: the same number below \<open>2^31\<close>, and \<open>2^32\<close> less
  from there on.
\<close>

lemma sint32_cases:
  fixes w :: "32 word"
  shows "sint w = (if uint w < 2147483648 then uint w else uint w - 4294967296)"
proof -
  have b: "0 \<le> uint w" "uint w < 4294967296"
    using uint_lt2p [of w] by simp_all
  have "sint w = take_bit 32 (uint w + 2147483648) - 2147483648"
    by (simp add: sint_uint signed_take_bit_eq_take_bit_shift)
  also have "take_bit 32 (uint w + 2147483648) = (uint w + 2147483648) mod 4294967296"
    by (simp add: take_bit_eq_mod)
  finally have s: "sint w = (uint w + 2147483648) mod 4294967296 - 2147483648" .
  show ?thesis
  proof (cases "uint w < 2147483648")
    case True
    with b have "(uint w + 2147483648) mod 4294967296 = uint w + 2147483648" by simp
    with s True show ?thesis by simp
  next
    case False
    with b have "(uint w + 2147483648) mod 4294967296 = uint w + 2147483648 - 4294967296"
      by (intro int_mod_pos_eq [where q = 1]) simp_all
    with s False show ?thesis by simp
  qed
qed

text \<open>
  C9, as it holds of the source. For a handle with no entry in the context registry,
  \<open>get_ctx_limits\<close> returns batch limit 512 and, as context length, the \<^verbatim>\<open>uint32_t\<close> the
  engine reports for the handle when the handle is non-null and that number lies between
  1 and \<open>2^31 - 1\<close>, and 1024 otherwise: for the null handle, for a reported length of 0,
  and for a reported length of \<open>2^31\<close> or more, which is negative once stored in the
  \<^verbatim>\<open>int\<close>. Every path of the source reaches the end of the function: it throws nowhere
  and returns nowhere early.
\<close>

theorem get_ctx_limits_unregistered:
  "g_ctx_n_ctx R ctx = None \<Longrightarrow> g_ctx_n_batch R ctx = None \<Longrightarrow>
   get_ctx_limits E R ctx =
     (if ctx \<noteq> 0 \<and> 0 < uint (llama_n_ctx E ctx) \<and> uint (llama_n_ctx E ctx) < 2147483648
      then uint (llama_n_ctx E ctx) else 1024, 512)"
proof -
  assume none: "g_ctx_n_ctx R ctx = None" "g_ctx_n_batch R ctx = None"
  let ?u = "uint (llama_n_ctx E ctx)"
  have range: "0 \<le> ?u" "?u < 4294967296"
    using uint_lt2p [of "llama_n_ctx E ctx"] by simp_all
  have pos: "0 < sint (llama_n_ctx E ctx) \<longleftrightarrow> 0 < ?u \<and> ?u < 2147483648"
  proof (cases "?u < 2147483648")
    case True
    then show ?thesis by (simp add: sint32_cases)
  next
    case False
    with range(2) have "?u - 4294967296 < 0" by linarith
    with False show ?thesis by (simp add: sint32_cases)
  qed
  have same: "0 < ?u \<and> ?u < 2147483648 \<Longrightarrow> sint (llama_n_ctx E ctx) = ?u"
    by (simp add: sint32_cases)
  show ?thesis
  proof (cases "ctx \<noteq> 0 \<and> 0 < ?u \<and> ?u < 2147483648")
    case True
    with none pos same show ?thesis
      by (simp add: get_ctx_limits_def CHAT_N_CTX_DEFAULT_def CHAT_N_BATCH_DEFAULT_def)
  next
    case False
    then have "ctx = 0 \<or> \<not> 0 < sint (llama_n_ctx E ctx)" using pos by blast
    with none False show ?thesis
      by (auto simp add: get_ctx_limits_def CHAT_N_CTX_DEFAULT_def CHAT_N_BATCH_DEFAULT_def)
  qed
qed

text \<open>
  C9, three concrete lookups of handles without a registry entry: the live handle 7 with
  an engine that reports 4096 gets \<open>(4096, 512)\<close>; the same handle with an engine that
  reports 4294967295 gets the defaults; the null handle gets the defaults.
\<close>

theorem get_ctx_limits_unregistered_witness:
  "g_ctx_n_ctx (demo_regs 1024 512 8) 7 = None \<and> g_ctx_n_batch (demo_regs 1024 512 8) 7 = None \<and>
   get_ctx_limits (scripted_engine 4096) (demo_regs 1024 512 8) 7 = (4096, 512) \<and>
   get_ctx_limits (scripted_engine 4294967295) (demo_regs 1024 512 8) 7 = (1024, 512) \<and>
   g_ctx_n_ctx (demo_regs 1024 512 8) 0 = None \<and> g_ctx_n_batch (demo_regs 1024 512 8) 0 = None \<and>
   get_ctx_limits (scripted_engine 4096) (demo_regs 1024 512 8) 0 = (1024, 512)"
proof -
  have n7: "g_ctx_n_ctx (demo_regs 1024 512 8) 7 = None" "g_ctx_n_batch (demo_regs 1024 512 8) 7 = None"
    and n0: "g_ctx_n_ctx (demo_regs 1024 512 8) 0 = None" "g_ctx_n_batch (demo_regs 1024 512 8) 0 = None"
    by (simp_all add: demo_regs_def)
  have e: "uint (llama_n_ctx (scripted_engine 4096) 7) = 4096"
    "uint (llama_n_ctx (scripted_engine 4294967295) 7) = 4294967295"
    by (simp_all add: scripted_engine_def)
  from get_ctx_limits_unregistered [OF n7, of "scripted_engine 4096"] e
  have a: "get_ctx_limits (scripted_engine 4096) (demo_regs 1024 512 8) 7 = (4096, 512)"
    by simp
  from get_ctx_limits_unregistered [OF n7, of "scripted_engine 4294967295"] e
  have b: "get_ctx_limits (scripted_engine 4294967295) (demo_regs 1024 512 8) 7 = (1024, 512)"
    by simp
  from get_ctx_limits_unregistered [OF n0, of "scripted_engine 4096"]
  have c: "get_ctx_limits (scripted_engine 4096) (demo_regs 1024 512 8) 0 = (1024, 512)"
    by simp
  from n7 n0 a b c show ?thesis by simp
qed

text \<open>
  C9 as stated fails for a live handle that is not registered: handle 7 has no registry
  entry, the engine reports context length 2048, and the lookup returns \<open>(2048, 512)\<close>.
\<close>

theorem get_ctx_limits_unregistered_counterexample:
  "g_ctx_n_ctx (demo_regs 1024 512 8) 7 = None \<and> g_ctx_n_batch (demo_regs 1024 512 8) 7 = None \<and>
   get_ctx_limits (scripted_engine 2048) (demo_regs 1024 512 8) 7 = (2048, 512)"
  by (simp add: get_ctx_limits_def demo_regs_def scripted_engine_def CHAT_N_CTX_DEFAULT_def
      CHAT_N_BATCH_DEFAULT_def)

section \<open>Completion initialisation: trimming and the returned length\<close>

lemma decode_chunks_accepting:
  "\<forall>e c b. fst (llama_decode E e c b) = 0 \<Longrightarrow>
   fst (decode_chunks E ctx batch tokens pos0 w nb bc d s)"
proof (induction E ctx batch tokens pos0 w nb bc d s rule: decode_chunks.induct)
  case (1 E ctx batch tokens pos0 w nb bc d s)
  let ?n = "int (length tokens)"
  show ?case
  proof (cases "d < ?n")
    case False
    then show ?thesis
      by (subst decode_chunks.simps) (simp add: Let_def)
  next
    case True
    define t where "t = min (chunk_cap nb bc) (?n - d)"
    define b where "b = fill_chunk (batch_mem s batch) tokens pos0 w d t"
    define r where "r = llama_decode E (eng s) ctx b"
    define s1 where "s1 = s\<lparr>eng := snd r, batch_mem := (batch_mem s)(batch := b),
                       decode_calls := decode_calls s @ [b],
                       decode_rcs := decode_rcs s @ [fst r]\<rparr>"
    have r0: "fst r = 0" using "1.prems" by (simp add: r_def)
    have unfold: "decode_chunks E ctx batch tokens pos0 w nb bc d s =
        decode_chunks E ctx batch tokens pos0 w nb bc (d + t) s1"
      using True r0
      by (subst decode_chunks.simps) (simp add: Let_def t_def b_def r_def s1_def chunk_cap_def)
    have "\<not> fst r \<noteq> 0" using r0 by simp
    then have "fst (decode_chunks E ctx batch tokens pos0 w nb bc (d + t) s1)"
      unfolding t_def b_def r_def s1_def chunk_cap_def
      by (rule "1.IH" [OF refl True refl refl refl refl _ "1.prems"])
    with unfold show ?thesis by simp
  qed
qed

lemma decode_tokens_chunked_accepting:
  assumes "ctx \<noteq> 0" "batch \<noteq> 0" "\<forall>e c b. fst (llama_decode E e c b) = 0"
  shows "fst (decode_tokens_chunked E R ctx batch tokens pos0 w s)"
  using assms decode_chunks_accepting [of E]
  by (simp add: decode_tokens_chunked_def Let_def split_beta)

lemma decode_tokens_chunked_tokens:
  assumes "decode_tokens_chunked E R ctx batch tokens pos0 w s = (True, s')"
  shows "\<exists>calls. decode_calls s' = decode_calls s @ calls \<and> map tok (concat calls) = tokens"
proof -
  let ?nb = "snd (get_ctx_limits E R ctx)" and ?bc = "get_batch_capacity R batch"
  from decode_tokens_chunked_trace [OF assms] obtain calls where
    calls: "decode_calls s' = decode_calls s @ calls"
    and layout: "chunks_from tokens pos0 w ?nb ?bc 0 = calls"
    by auto
  have "concat calls = map (rec_at tokens pos0 w) [0..int (length tokens) - 1]"
    using chunks_from_concat [of 0 tokens pos0 w ?nb ?bc] layout by simp
  then have "map tok (concat calls) = tokens"
    by (simp only: map_tok_rec_at map_nth_upto)
  with calls show ?thesis by blast
qed


lemma max_prompt_of_ge: "64 \<le> max_prompt_of n_ctx n_len"
  by (simp add: max_prompt_of_def Let_def)

lemma int32_id: "- 2147483648 \<le> x \<Longrightarrow> x < 2147483648 \<Longrightarrow> int32 x = x"
  by (simp add: int32_def)

lemma sint32_range:
  fixes w :: "32 word"
  shows "- 2147483648 \<le> sint w \<and> sint w < 2147483648"
proof (cases "uint w < 2147483648")
  case True
  have "0 \<le> uint w" by simp
  then have "- 2147483648 \<le> uint w" by linarith
  with True show ?thesis by (simp add: sint32_cases)
next
  case False
  have "uint w < 4294967296" using uint_lt2p [of w] by simp
  with False show ?thesis by (simp add: sint32_cases)
qed

text \<open>With non-null handles the result of \<open>completion_init\<close> is decided by the chunked decode.\<close>

lemma completion_init_unfold:
  assumes "ctx \<noteq> 0" "batch \<noteq> 0"
  shows "completion_init E R ctx batch jtext n_len s =
     (let kept = trim_prompt (common_tokenize E ctx jtext)
                   (max_prompt_of (sint (llama_n_ctx E ctx)) n_len);
          r = decode_tokens_chunked E R ctx batch kept 0 True
                (s\<lparr>cached_token_chars := [], eng := llama_kv_cache_clear E (eng s) ctx\<rparr>)
      in (if fst r then Inr (int (length kept)) else Inr 0, snd r))"
  using assms by (simp add: completion_init_def Let_def)

lemma completion_init_accepting_rcs:
  assumes "ctx \<noteq> 0" "batch \<noteq> 0" "\<forall>e c b. fst (llama_decode E e c b) = 0"
    and "decode_rcs s = []"
  shows "\<forall>rc \<in> set (decode_rcs (snd (completion_init E R ctx batch jtext n_len s))). rc = 0"
proof -
  let ?kept = "trim_prompt (common_tokenize E ctx jtext)
                 (max_prompt_of (sint (llama_n_ctx E ctx)) n_len)"
  let ?s1 = "s\<lparr>cached_token_chars := [], eng := llama_kv_cache_clear E (eng s) ctx\<rparr>"
  let ?r = "decode_tokens_chunked E R ctx batch ?kept 0 True ?s1"
  have ok: "fst ?r" using assms(1-3) by (rule decode_tokens_chunked_accepting)
  then have "?r = (True, snd ?r)" by (simp add: prod_eq_iff)
  from decode_tokens_chunked_rcs [OF this] assms(4)
  have "\<forall>rc \<in> set (decode_rcs (snd ?r)). rc = 0" by auto
  then show ?thesis
    using assms(1,2) by (simp add: completion_init_unfold Let_def)
qed

text \<open>
  C4, as it holds of the source. With non-null handles, \<open>completion_init\<close> works with a
  prompt budget computed in 32-bit \<^verbatim>\<open>int\<close> arithmetic: \<open>n_ctx - n_len - 8\<close> wrapped to 32
  bits when that is at least 64, and otherwise \<open>max 64\<close> of \<open>n_ctx - 64\<close> wrapped to 32 bits,
  so the budget is never below 64. Where no subtraction leaves the 32-bit range this is
  \<open>n_ctx - n_len - 8\<close> when that is at least 64 and \<open>max 64 (n_ctx - 64)\<close> otherwise. A
  tokenized prompt longer than the budget is cut to its trailing budget-many tokens.
  When no engine decode call of the run fails, the tokens handed to the engine are
  exactly the retained ones and the returned length is their number; when a decode call
  of the run fails, the returned value is 0.
\<close>

theorem completion_init_trims_prompt:
  fixes E :: "'e engine"
  defines "mp n_ctx n_len \<equiv>
             (if int32 (n_ctx - n_len - 8) < 64 then max 64 (int32 (n_ctx - 64))
              else int32 (n_ctx - n_len - 8))"
  defines "kept toks m \<equiv>
             (if int (length toks) > m then drop (length toks - nat m) toks else toks)"
  assumes "ctx \<noteq> 0" "batch \<noteq> 0"
    and "completion_init E R ctx batch jtext n_len s = (res, s')"
  shows "64 \<le> mp (sint (llama_n_ctx E ctx)) n_len \<and>
         (64 \<le> sint (llama_n_ctx E ctx) - n_len - 8 \<and>
          sint (llama_n_ctx E ctx) - n_len - 8 < 2147483648 \<longrightarrow>
            mp (sint (llama_n_ctx E ctx)) n_len = sint (llama_n_ctx E ctx) - n_len - 8) \<and>
         (- 2147483648 \<le> sint (llama_n_ctx E ctx) - n_len - 8 \<and>
          sint (llama_n_ctx E ctx) - n_len - 8 < 64 \<and> - 2147483584 \<le> sint (llama_n_ctx E ctx) \<longrightarrow>
            mp (sint (llama_n_ctx E ctx)) n_len = max 64 (sint (llama_n_ctx E ctx) - 64)) \<and>
         (int (length (common_tokenize E ctx jtext)) > mp (sint (llama_n_ctx E ctx)) n_len \<longrightarrow>
            int (length (kept (common_tokenize E ctx jtext) (mp (sint (llama_n_ctx E ctx)) n_len))) =
              mp (sint (llama_n_ctx E ctx)) n_len) \<and>
         (\<exists>calls rcs. decode_calls s' = decode_calls s @ calls \<and>
            decode_rcs s' = decode_rcs s @ rcs \<and> length rcs = length calls \<and>
            ((\<forall>rc \<in> set rcs. rc = 0) \<longrightarrow>
               res = Inr (int (length (kept (common_tokenize E ctx jtext)
                                        (mp (sint (llama_n_ctx E ctx)) n_len)))) \<and>
               map tok (concat calls) =
                 kept (common_tokenize E ctx jtext) (mp (sint (llama_n_ctx E ctx)) n_len)) \<and>
            ((\<exists>rc \<in> set rcs. rc \<noteq> 0) \<longrightarrow> res = Inr 0))"
proof -
  let ?N = "sint (llama_n_ctx E ctx)"
  let ?toks = "common_tokenize E ctx jtext"
  let ?m = "mp ?N n_len"
  let ?s1 = "s\<lparr>cached_token_chars := [], eng := llama_kv_cache_clear E (eng s) ctx\<rparr>"
  let ?r = "decode_tokens_chunked E R ctx batch (kept ?toks ?m) 0 True ?s1"
  have m: "?m = max_prompt_of ?N n_len"
    by (simp add: mp_def max_prompt_of_def Let_def)
  have k: "kept ?toks ?m = trim_prompt ?toks (max_prompt_of ?N n_len)"
    by (simp add: kept_def trim_prompt_def m)
  have ge: "64 \<le> ?m" unfolding m by (rule max_prompt_of_ge)
  have plain1: "64 \<le> ?N - n_len - 8 \<and> ?N - n_len - 8 < 2147483648 \<longrightarrow> ?m = ?N - n_len - 8"
    by (simp add: mp_def int32_id)
  have plain2: "- 2147483648 \<le> ?N - n_len - 8 \<and> ?N - n_len - 8 < 64 \<and> - 2147483584 \<le> ?N \<longrightarrow>
      ?m = max 64 (?N - 64)"
    using sint32_range [of "llama_n_ctx E ctx"] by (simp add: mp_def int32_id)
  have len: "int (length ?toks) > ?m \<longrightarrow> int (length (kept ?toks ?m)) = ?m"
    using ge by (auto simp: kept_def)
  have run: "completion_init E R ctx batch jtext n_len s =
      (if fst ?r then Inr (int (length (kept ?toks ?m))) else Inr 0, snd ?r)"
    using assms(3,4) by (simp add: completion_init_unfold Let_def k)
  with assms(5) have res: "res = (if fst ?r then Inr (int (length (kept ?toks ?m))) else Inr 0)"
    and s': "s' = snd ?r"
    by simp_all
  have pair: "?r = (fst ?r, s')" using s' by simp
  from decode_tokens_chunked_rcs [OF pair] assms(3,4) obtain calls rcs where
    calls: "decode_calls s' = decode_calls s @ calls"
    and rcs: "decode_rcs s' = decode_rcs s @ rcs" "length rcs = length calls"
      "fst ?r \<longrightarrow> (\<forall>rc \<in> set rcs. rc = 0)" "\<not> fst ?r \<longrightarrow> rcs \<noteq> [] \<and> last rcs \<noteq> 0"
    by auto
  have good: "(\<forall>rc \<in> set rcs. rc = 0) \<longrightarrow>
      res = Inr (int (length (kept ?toks ?m))) \<and> map tok (concat calls) = kept ?toks ?m"
  proof
    assume zero: "\<forall>rc \<in> set rcs. rc = 0"
    have ok: "fst ?r"
    proof (rule ccontr)
      assume "\<not> fst ?r"
      with rcs(4) have "rcs \<noteq> []" "last rcs \<noteq> 0" by simp_all
      with zero show False using last_in_set by blast
    qed
    then have "?r = (True, s')" using s' by (simp add: prod_eq_iff)
    from decode_tokens_chunked_tokens [OF this] obtain calls' where
      "decode_calls s' = decode_calls ?s1 @ calls'" "map tok (concat calls') = kept ?toks ?m"
      by blast
    with calls have "map tok (concat calls) = kept ?toks ?m" by simp
    with ok res show "res = Inr (int (length (kept ?toks ?m))) \<and>
        map tok (concat calls) = kept ?toks ?m"
      by simp
  qed
  have bad: "(\<exists>rc \<in> set rcs. rc \<noteq> 0) \<longrightarrow> res = Inr 0"
    using rcs(3) res by auto
  from ge plain1 plain2 len calls rcs(1,2) good bad show ?thesis by blast
qed

text \<open>
  C4, the specification's example and a failing run. Context 1024, \<open>n_len\<close> 256 and a
  prompt of 2000 tokens, token \<open>i\<close> being the byte \<open>i mod 256\<close>, on an engine that accepts
  every batch: the tokens at indices 1240 to 1999 are handed to the engine and 760 is
  returned. A three-token prompt whose first chunk the engine rejects: 0 is returned.
\<close>

theorem completion_init_trims_prompt_witness:
  "fst (completion_init (accepting_engine 1024) (demo_regs 1024 512 512) 3 2
          (map word_of_nat [0..<2000]) 256 (init_state ())) = Inr 760 \<and>
   (\<exists>calls. decode_calls (snd (completion_init (accepting_engine 1024) (demo_regs 1024 512 512) 3 2
          (map word_of_nat [0..<2000]) 256 (init_state ()))) = calls \<and>
      map tok (concat calls) = map (\<lambda>i. uint (word_of_nat i :: byte)) [1240..<2000]) \<and>
   fst (completion_init (scripted_engine 1024) (demo_regs 1024 2 8) 3 2 [0x41, 0x42, 0x43] 16
          (init_state \<lparr>rcs = [1], samples = []\<rparr>)) = Inr 0"
proof -
  let ?E = "accepting_engine 1024"
  let ?r = "completion_init (accepting_engine 1024) (demo_regs 1024 512 512) 3 2
          (map word_of_nat [0..<2000]) 256 (init_state ())"
  let ?f = "completion_init (scripted_engine 1024) (demo_regs 1024 2 8) 3 2 [0x41, 0x42, 0x43] 16
          (init_state \<lparr>rcs = [1], samples = []\<rparr>)"
  have h: "(3::nat) \<noteq> 0" "(2::nat) \<noteq> 0" by simp_all
  have a: "\<forall>e c b. fst (llama_decode ?E e c b) = 0"
    by (simp add: accepting_engine_def)
  have n: "sint (llama_n_ctx ?E 3) = 1024"
    "common_tokenize ?E 3 (map word_of_nat [0..<2000]) =
       map (\<lambda>i. uint (word_of_nat i :: byte)) [0..<2000]"
    by (simp_all add: accepting_engine_def comp_def)
  have zero: "\<forall>rc \<in> set (decode_rcs (snd ?r)). rc = 0"
    by (rule completion_init_accepting_rcs [OF h a]) (simp add: init_state_def)
  have "?r = (fst ?r, snd ?r)" by simp
  from completion_init_trims_prompt [OF h this] zero
  have ok: "fst ?r = Inr 760 \<and>
      (\<exists>calls. decode_calls (snd ?r) = calls \<and>
        map tok (concat calls) = map (\<lambda>i. uint (word_of_nat i :: byte)) [1240..<2000])"
    by (simp add: n init_state_def int32_def drop_map)
  have frc: "decode_rcs (snd ?f) = [1]"
    by (simp add: completion_init_def max_prompt_of_def int32_def trim_prompt_def
      decode_tokens_chunked_def decode_chunks.simps get_ctx_limits_def get_batch_capacity_def
      scripted_engine_def demo_regs_def init_state_def fill_chunk_def common_batch_add_def
      common_batch_clear_def Let_def CHAT_N_BATCH_DEFAULT_def CHAT_N_CTX_DEFAULT_def)
  have "?f = (fst ?f, snd ?f)" by simp
  from completion_init_trims_prompt [OF h this] frc
  have bad: "fst ?f = Inr 0"
    by (auto simp add: init_state_def)
  from ok bad show ?thesis by blast
qed

text \<open>
  C4 as stated fails in two places. The clamp is not the specification's: with context
  1024 and \<open>n_len\<close> 1000 the source's budget is 960, where clamping \<open>1024 - 1000 - 8\<close> to at
  least 64 gives 64. And the returned length is not the retained count when the decode
  fails: three tokens are retained, the engine rejects the chunk, and 0 is returned.
\<close>

theorem completion_init_trims_prompt_counterexample:
  "max_prompt_of 1024 1000 = 960 \<and> max_prompt_spec 1024 1000 = 64 \<and>
   length (trim_prompt (common_tokenize (scripted_engine 1024) 3 [0x41, 0x42, 0x43])
             (max_prompt_of (sint (llama_n_ctx (scripted_engine 1024) 3)) 16)) = 3 \<and>
   fst (completion_init (scripted_engine 1024) (demo_regs 1024 2 8) 3 2 [0x41, 0x42, 0x43] 16
          (init_state \<lparr>rcs = [1], samples = []\<rparr>)) = Inr 0"
  by (simp add: max_prompt_of_def int32_def max_prompt_spec_def completion_init_def
      decode_tokens_chunked_def decode_chunks.simps get_ctx_limits_def get_batch_capacity_def
      scripted_engine_def demo_regs_def init_state_def fill_chunk_def common_batch_add_def
      common_batch_clear_def Let_def CHAT_N_BATCH_DEFAULT_def CHAT_N_CTX_DEFAULT_def
      trim_prompt_def)

text \<open>
  C10. With non-null handles, \<open>completion_init\<close> returns 0 when the chunked decode of the
  (trimmed) prompt fails, and it also returns 0 when the prompt tokenizes to no tokens,
  in which case the chunked decode succeeds and no engine call is made: the returned
  length alone does not tell the two apart.
\<close>

theorem completion_init_zero_ambiguous:
  assumes "ctx \<noteq> 0" "batch \<noteq> 0"
  shows "(\<not> fst (decode_tokens_chunked E R ctx batch
                 (trim_prompt (common_tokenize E ctx jtext) (max_prompt_of (sint (llama_n_ctx E ctx)) n_len))
                 0 True (s\<lparr>cached_token_chars := [], eng := llama_kv_cache_clear E (eng s) ctx\<rparr>)) \<longrightarrow>
           fst (completion_init E R ctx batch jtext n_len s) = Inr 0) \<and>
         (common_tokenize E ctx jtext = [] \<longrightarrow>
           fst (completion_init E R ctx batch jtext n_len s) = Inr 0 \<and>
           fst (decode_tokens_chunked E R ctx batch
                 (trim_prompt (common_tokenize E ctx jtext) (max_prompt_of (sint (llama_n_ctx E ctx)) n_len))
                 0 True (s\<lparr>cached_token_chars := [], eng := llama_kv_cache_clear E (eng s) ctx\<rparr>)) \<and>
           decode_calls (snd (completion_init E R ctx batch jtext n_len s)) = decode_calls s)"
  using assms max_prompt_of_ge [of "sint (llama_n_ctx E ctx)" n_len]
  by (auto simp: completion_init_def Let_def trim_prompt_def decode_tokens_chunked_def)

text \<open>
  C10, two concrete runs: a three-token prompt whose first chunk the engine rejects, and an
  empty prompt; both return 0, the first after one engine call, the second after none.
\<close>

theorem completion_init_zero_ambiguous_witness:
  "fst (completion_init (scripted_engine 1024) (demo_regs 1024 2 8) 3 2 [0x41, 0x42, 0x43] 16
          (init_state \<lparr>rcs = [1], samples = []\<rparr>)) = Inr 0 \<and>
   length (decode_calls (snd (completion_init (scripted_engine 1024) (demo_regs 1024 2 8) 3 2
          [0x41, 0x42, 0x43] 16 (init_state \<lparr>rcs = [1], samples = []\<rparr>)))) = 1 \<and>
   fst (completion_init (scripted_engine 1024) (demo_regs 1024 2 8) 3 2 [] 16
          (init_state \<lparr>rcs = [], samples = []\<rparr>)) = Inr 0 \<and>
   decode_calls (snd (completion_init (scripted_engine 1024) (demo_regs 1024 2 8) 3 2 [] 16
          (init_state \<lparr>rcs = [], samples = []\<rparr>))) = []"
proof -
  have h: "(3::nat) \<noteq> 0" "(2::nat) \<noteq> 0" by simp_all
  have fails: "\<not> fst (decode_tokens_chunked (scripted_engine 1024) (demo_regs 1024 2 8) 3 2
         (trim_prompt (common_tokenize (scripted_engine 1024) 3 [0x41, 0x42, 0x43])
            (max_prompt_of (sint (llama_n_ctx (scripted_engine 1024) 3)) 16))
         0 True ((init_state \<lparr>rcs = [1], samples = []\<rparr>)\<lparr>cached_token_chars := [],
           eng := llama_kv_cache_clear (scripted_engine 1024)
                    (eng (init_state \<lparr>rcs = [1], samples = []\<rparr>)) 3\<rparr>))"
    by (simp add: decode_tokens_chunked_def decode_chunks.simps get_ctx_limits_def
      get_batch_capacity_def scripted_engine_def demo_regs_def init_state_def fill_chunk_def
      common_batch_add_def common_batch_clear_def Let_def CHAT_N_BATCH_DEFAULT_def
      CHAT_N_CTX_DEFAULT_def trim_prompt_def max_prompt_of_def int32_def)
  have calls: "length (decode_calls (snd (completion_init (scripted_engine 1024) (demo_regs 1024 2 8) 3 2
          [0x41, 0x42, 0x43] 16 (init_state \<lparr>rcs = [1], samples = []\<rparr>)))) = 1"
    by (simp add: completion_init_def decode_tokens_chunked_def decode_chunks.simps get_ctx_limits_def
      get_batch_capacity_def scripted_engine_def demo_regs_def init_state_def fill_chunk_def
      common_batch_add_def common_batch_clear_def Let_def CHAT_N_BATCH_DEFAULT_def
      CHAT_N_CTX_DEFAULT_def trim_prompt_def max_prompt_of_def int32_def)
  have empty: "common_tokenize (scripted_engine 1024) 3 [] = []"
    by (simp add: scripted_engine_def)
  from completion_init_zero_ambiguous [OF h, of "scripted_engine 1024" "demo_regs 1024 2 8"
      "[0x41, 0x42, 0x43]" 16 "init_state \<lparr>rcs = [1], samples = []\<rparr>"] fails
  have "fst (completion_init (scripted_engine 1024) (demo_regs 1024 2 8) 3 2 [0x41, 0x42, 0x43] 16
          (init_state \<lparr>rcs = [1], samples = []\<rparr>)) = Inr 0"
    by blast
  moreover
  from completion_init_zero_ambiguous [OF h, of "scripted_engine 1024" "demo_regs 1024 2 8"
      "[]" 16 "init_state \<lparr>rcs = [], samples = []\<rparr>"] empty
  have "fst (completion_init (scripted_engine 1024) (demo_regs 1024 2 8) 3 2 [] 16
          (init_state \<lparr>rcs = [], samples = []\<rparr>)) = Inr 0 \<and>
        decode_calls (snd (completion_init (scripted_engine 1024) (demo_regs 1024 2 8) 3 2 [] 16
          (init_state \<lparr>rcs = [], samples = []\<rparr>))) = []"
    by (simp add: init_state_def)
  ultimately show ?thesis using calls by simp
qed

section \<open>Generation loop: what a null result can mean\<close>

lemma completion_loop_stop:
  assumes "ctx \<noteq> 0" "batch \<noteq> 0" "sampler \<noteq> 0" "0 \<le> n_cur" "n_cur < sint (llama_n_ctx E ctx)"
    and "llama_token_is_eog E (llama_get_model E ctx) (fst (llama_sampler_sample E (eng s) sampler ctx)) \<or>
         n_cur = n_len \<or>
         fst (llama_sampler_sample E (eng s) sampler ctx) = llama_token_eot E (llama_get_model E ctx)"
  shows "completion_loop E ctx batch sampler n_len (Some n_cur) s =
           (None, Some n_cur, s\<lparr>eng := snd (llama_sampler_sample E (eng s) sampler ctx)\<rparr>)"
  using assms by (simp add: completion_loop_def Let_def)

lemma completion_loop_decode:
  assumes "ctx \<noteq> 0" "batch \<noteq> 0" "sampler \<noteq> 0" "0 \<le> n_cur" "n_cur < sint (llama_n_ctx E ctx)"
    and "\<not> (llama_token_is_eog E (llama_get_model E ctx) (fst (llama_sampler_sample E (eng s) sampler ctx)) \<or>
         n_cur = n_len \<or>
         fst (llama_sampler_sample E (eng s) sampler ctx) = llama_token_eot E (llama_get_model E ctx))"
  shows "completion_loop E ctx batch sampler n_len (Some n_cur) s =
           (let smp = llama_sampler_sample E (eng s) sampler ctx;
                acc = accumulate (cached_token_chars s) (common_token_to_piece E ctx (fst smp));
                b = [\<lparr>tok = fst smp, pos = n_cur, seq_ids = [0], logits = True\<rparr>];
                r = llama_decode E (snd smp) ctx b
            in (if fst r \<noteq> 0 then None else Some (fst acc), Some (n_cur + 1),
                s\<lparr>eng := snd r, cached_token_chars := snd acc,
                  batch_mem := (batch_mem s)(batch := b),
                  decode_calls := decode_calls s @ [b],
                       decode_rcs := decode_rcs s @ [fst r]\<rparr>))"
  using assms
  by (simp add: completion_loop_def Let_def common_batch_add_def common_batch_clear_def)

lemmas loop_eval = completion_loop_def scripted_engine_def init_state_def accumulate_def
  is_valid_utf8.simps deref_def lead_num_def c_str_def common_batch_add_def common_batch_clear_def
  Let_def

text \<open>
  C5, as it holds of the source. With valid handles and a cursor inside the context, \<open>completion_loop\<close>
  returns \<^verbatim>\<open>nullptr\<close> on a normal stop (end-of-generation token, cursor equal to \<open>n_len\<close>,
  end-of-turn token) and returns \<^verbatim>\<open>nullptr\<close> as well when the single-token decode fails:
  the returned value is the same. What differs is the cursor, unchanged on a stop and
  advanced by one on a decode failure.
\<close>

theorem completion_loop_null_on_failure_and_stop:
  assumes "ctx \<noteq> 0" "batch \<noteq> 0" "sampler \<noteq> 0" "0 \<le> n_cur" "n_cur < sint (llama_n_ctx E ctx)"
  shows
    "(llama_token_is_eog E (llama_get_model E ctx) (fst (llama_sampler_sample E (eng s) sampler ctx)) \<or>
      n_cur = n_len \<or>
      fst (llama_sampler_sample E (eng s) sampler ctx) = llama_token_eot E (llama_get_model E ctx) \<longrightarrow>
        fst (completion_loop E ctx batch sampler n_len (Some n_cur) s) = None \<and>
        fst (snd (completion_loop E ctx batch sampler n_len (Some n_cur) s)) = Some n_cur) \<and>
     (\<not> (llama_token_is_eog E (llama_get_model E ctx) (fst (llama_sampler_sample E (eng s) sampler ctx)) \<or>
         n_cur = n_len \<or>
         fst (llama_sampler_sample E (eng s) sampler ctx) = llama_token_eot E (llama_get_model E ctx)) \<and>
      fst (llama_decode E (snd (llama_sampler_sample E (eng s) sampler ctx)) ctx
             [\<lparr>tok = fst (llama_sampler_sample E (eng s) sampler ctx), pos = n_cur,
               seq_ids = [0], logits = True\<rparr>]) \<noteq> 0 \<longrightarrow>
        fst (completion_loop E ctx batch sampler n_len (Some n_cur) s) = None \<and>
        fst (snd (completion_loop E ctx batch sampler n_len (Some n_cur) s)) = Some (n_cur + 1))"
proof (intro conjI impI)
  assume "llama_token_is_eog E (llama_get_model E ctx) (fst (llama_sampler_sample E (eng s) sampler ctx)) \<or>
      n_cur = n_len \<or>
      fst (llama_sampler_sample E (eng s) sampler ctx) = llama_token_eot E (llama_get_model E ctx)"
  from completion_loop_stop [OF assms this]
  show "fst (completion_loop E ctx batch sampler n_len (Some n_cur) s) = None"
    and "fst (snd (completion_loop E ctx batch sampler n_len (Some n_cur) s)) = Some n_cur"
    by simp_all
next
  assume a: "\<not> (llama_token_is_eog E (llama_get_model E ctx) (fst (llama_sampler_sample E (eng s) sampler ctx)) \<or>
         n_cur = n_len \<or>
         fst (llama_sampler_sample E (eng s) sampler ctx) = llama_token_eot E (llama_get_model E ctx)) \<and>
      fst (llama_decode E (snd (llama_sampler_sample E (eng s) sampler ctx)) ctx
             [\<lparr>tok = fst (llama_sampler_sample E (eng s) sampler ctx), pos = n_cur,
               seq_ids = [0], logits = True\<rparr>]) \<noteq> 0"
  then have ns: "\<not> (llama_token_is_eog E (llama_get_model E ctx) (fst (llama_sampler_sample E (eng s) sampler ctx)) \<or>
         n_cur = n_len \<or>
         fst (llama_sampler_sample E (eng s) sampler ctx) = llama_token_eot E (llama_get_model E ctx))"
    by blast
  from completion_loop_decode [OF assms ns] a
  show "fst (completion_loop E ctx batch sampler n_len (Some n_cur) s) = None"
    and "fst (snd (completion_loop E ctx batch sampler n_len (Some n_cur) s)) = Some (n_cur + 1)"
    by (simp_all add: Let_def)
qed

text \<open>
  C5, two concrete runs from cursor 4: the sampler draws the end-of-generation token
  (null, cursor 4), and the engine rejects the decode of token 226 (null, cursor 5).
\<close>

theorem completion_loop_null_on_failure_and_stop_witness:
  "fst (completion_loop (scripted_engine 1024) 3 2 5 16 (Some 4)
          (init_state \<lparr>rcs = [], samples = [0]\<rparr>)) = None \<and>
   fst (snd (completion_loop (scripted_engine 1024) 3 2 5 16 (Some 4)
          (init_state \<lparr>rcs = [], samples = [0]\<rparr>))) = Some 4 \<and>
   fst (completion_loop (scripted_engine 1024) 3 2 5 16 (Some 4)
          (init_state \<lparr>rcs = [1], samples = [226]\<rparr>)) = None \<and>
   fst (snd (completion_loop (scripted_engine 1024) 3 2 5 16 (Some 4)
          (init_state \<lparr>rcs = [1], samples = [226]\<rparr>))) = Some 5"
proof -
  let ?E = "scripted_engine 1024"
  have h: "(3::nat) \<noteq> 0" "(2::nat) \<noteq> 0" "(5::nat) \<noteq> 0" "(0::int) \<le> 4" "4 < sint (llama_n_ctx ?E 3)"
    by (simp_all add: scripted_engine_def)
  have stop: "llama_token_is_eog ?E (llama_get_model ?E 3)
      (fst (llama_sampler_sample ?E (eng (init_state \<lparr>rcs = [], samples = [0]\<rparr>)) 5 3))"
    by (simp add: scripted_engine_def init_state_def)
  have fail: "\<not> (llama_token_is_eog ?E (llama_get_model ?E 3)
        (fst (llama_sampler_sample ?E (eng (init_state \<lparr>rcs = [1], samples = [226]\<rparr>)) 5 3)) \<or>
      (4::int) = 16 \<or>
      fst (llama_sampler_sample ?E (eng (init_state \<lparr>rcs = [1], samples = [226]\<rparr>)) 5 3) =
        llama_token_eot ?E (llama_get_model ?E 3)) \<and>
    fst (llama_decode ?E (snd (llama_sampler_sample ?E (eng (init_state \<lparr>rcs = [1], samples = [226]\<rparr>)) 5 3)) 3
           [\<lparr>tok = fst (llama_sampler_sample ?E (eng (init_state \<lparr>rcs = [1], samples = [226]\<rparr>)) 5 3),
             pos = 4, seq_ids = [0], logits = True\<rparr>]) \<noteq> 0"
    by (simp add: scripted_engine_def init_state_def)
  from completion_loop_null_on_failure_and_stop [OF h,
      where s = "init_state \<lparr>rcs = [], samples = [0]\<rparr>" and n_len = 16] stop
  have a: "fst (completion_loop (scripted_engine 1024) 3 2 5 16 (Some 4)
          (init_state \<lparr>rcs = [], samples = [0]\<rparr>)) = None \<and>
   fst (snd (completion_loop (scripted_engine 1024) 3 2 5 16 (Some 4)
          (init_state \<lparr>rcs = [], samples = [0]\<rparr>))) = Some 4"
    by blast
  from completion_loop_null_on_failure_and_stop [OF h,
      where s = "init_state \<lparr>rcs = [1], samples = [226]\<rparr>" and n_len = 16] fail
  have b: "fst (completion_loop (scripted_engine 1024) 3 2 5 16 (Some 4)
          (init_state \<lparr>rcs = [1], samples = [226]\<rparr>)) = None \<and>
   fst (snd (completion_loop (scripted_engine 1024) 3 2 5 16 (Some 4)
          (init_state \<lparr>rcs = [1], samples = [226]\<rparr>))) = Some 5"
    by simp
  from a b show ?thesis by simp
qed

text \<open>
  C5 as stated fails: the run whose decode call is rejected (one engine call made) and
  the run that stops on the end-of-generation token (no engine call) both return
  \<^verbatim>\<open>nullptr\<close>.
\<close>

theorem completion_loop_null_on_failure_and_stop_counterexample:
  "fst (completion_loop (scripted_engine 1024) 3 2 5 16 (Some 4)
          (init_state \<lparr>rcs = [1], samples = [226]\<rparr>)) = None \<and>
   length (decode_calls (snd (snd (completion_loop (scripted_engine 1024) 3 2 5 16 (Some 4)
          (init_state \<lparr>rcs = [1], samples = [226]\<rparr>))))) = 1 \<and>
   fst (completion_loop (scripted_engine 1024) 3 2 5 16 (Some 4)
          (init_state \<lparr>rcs = [], samples = [0]\<rparr>)) = None \<and>
   decode_calls (snd (snd (completion_loop (scripted_engine 1024) 3 2 5 16 (Some 4)
          (init_state \<lparr>rcs = [], samples = [0]\<rparr>)))) = []"
  by (simp add: loop_eval)

text \<open>
  C7, as it holds of the source. When \<open>completion_loop\<close> returns \<^verbatim>\<open>nullptr\<close>, either it returned before the
  decode stage, and then the cursor, \<^verbatim>\<open>cached_token_chars\<close> and the engine's call history
  are unchanged; or its decode call failed, and then the cursor has been incremented by
  one and \<^verbatim>\<open>cached_token_chars\<close> already holds the outcome of the accumulator step
  (empty if the extended buffer was valid, the extended buffer otherwise).
\<close>

theorem completion_loop_state_on_null:
  assumes "completion_loop E ctx batch sampler n_len intvar_ncur s = (None, intvar', s')"
  shows "(intvar' = intvar_ncur \<and> cached_token_chars s' = cached_token_chars s \<and>
          decode_calls s' = decode_calls s) \<or>
         (\<exists>n_cur t piece b.
            intvar_ncur = Some n_cur \<and> intvar' = Some (n_cur + 1) \<and>
            t = fst (llama_sampler_sample E (eng s) sampler ctx) \<and>
            piece = common_token_to_piece E ctx t \<and>
            b = [\<lparr>tok = t, pos = n_cur, seq_ids = [0], logits = True\<rparr>] \<and>
            fst (llama_decode E (snd (llama_sampler_sample E (eng s) sampler ctx)) ctx b) \<noteq> 0 \<and>
            decode_calls s' = decode_calls s @ [b] \<and>
            cached_token_chars s' =
              (if is_valid_utf8 (cached_token_chars s @ piece) then []
               else cached_token_chars s @ piece))"
proof (cases intvar_ncur)
  case None
  with assms show ?thesis by (simp add: completion_loop_def)
next
  case (Some n_cur)
  show ?thesis
  proof (cases "ctx \<noteq> 0 \<and> batch \<noteq> 0 \<and> sampler \<noteq> 0 \<and> 0 \<le> n_cur \<and> n_cur < sint (llama_n_ctx E ctx)")
    case False
    with assms Some show ?thesis
      by (auto simp: completion_loop_def Let_def split: if_splits)
  next
    case valid: True
    show ?thesis
    proof (cases "llama_token_is_eog E (llama_get_model E ctx) (fst (llama_sampler_sample E (eng s) sampler ctx)) \<or>
         n_cur = n_len \<or>
         fst (llama_sampler_sample E (eng s) sampler ctx) = llama_token_eot E (llama_get_model E ctx)")
      case True
      from valid have "completion_loop E ctx batch sampler n_len (Some n_cur) s =
           (None, Some n_cur, s\<lparr>eng := snd (llama_sampler_sample E (eng s) sampler ctx)\<rparr>)"
        by (intro completion_loop_stop True) simp_all
      with assms Some show ?thesis by auto
    next
      case False
      from valid have "completion_loop E ctx batch sampler n_len (Some n_cur) s =
           (let smp = llama_sampler_sample E (eng s) sampler ctx;
                acc = accumulate (cached_token_chars s) (common_token_to_piece E ctx (fst smp));
                b = [\<lparr>tok = fst smp, pos = n_cur, seq_ids = [0], logits = True\<rparr>];
                r = llama_decode E (snd smp) ctx b
            in (if fst r \<noteq> 0 then None else Some (fst acc), Some (n_cur + 1),
                s\<lparr>eng := snd r, cached_token_chars := snd acc,
                  batch_mem := (batch_mem s)(batch := b),
                  decode_calls := decode_calls s @ [b],
                       decode_rcs := decode_rcs s @ [fst r]\<rparr>))"
        by (intro completion_loop_decode False) simp_all
      with assms Some show ?thesis
        by (auto simp: Let_def accumulate_def split: if_splits)
    qed
  qed
qed


text \<open>C7, concrete run: a stop on the end-of-generation token leaves cursor and buffer alone.\<close>

theorem completion_loop_state_on_null_witness:
  "fst (completion_loop (scripted_engine 1024) 3 2 5 16 (Some 4)
          (init_state \<lparr>rcs = [], samples = [0]\<rparr>)) = None \<and>
   fst (snd (completion_loop (scripted_engine 1024) 3 2 5 16 (Some 4)
          (init_state \<lparr>rcs = [], samples = [0]\<rparr>))) = Some 4 \<and>
   cached_token_chars (snd (snd (completion_loop (scripted_engine 1024) 3 2 5 16 (Some 4)
          (init_state \<lparr>rcs = [], samples = [0]\<rparr>)))) = []"
proof -
  let ?r = "completion_loop (scripted_engine 1024) 3 2 5 16 (Some 4)
          (init_state \<lparr>rcs = [], samples = [0]\<rparr>)"
  have n: "fst ?r = None" and d: "decode_calls (snd (snd ?r)) = []"
    by (simp_all add: loop_eval)
  then have "?r = (None, fst (snd ?r), snd (snd ?r))"
    by (simp add: prod_eq_iff)
  from completion_loop_state_on_null [OF this] d
  have "fst (snd ?r) = Some 4 \<and> cached_token_chars (snd (snd ?r)) = []"
    by (simp add: init_state_def)
  with n show ?thesis by simp
qed
text \<open>
  C7 as stated fails: the engine rejects the decode of token 226 (piece \<open>0xE2\<close>); the call
  returns \<^verbatim>\<open>nullptr\<close>, the cursor has moved from 4 to 5 and the buffer from empty to
  \<open>[0xE2]\<close>.
\<close>

theorem completion_loop_state_on_null_counterexample:
  "fst (completion_loop (scripted_engine 1024) 3 2 5 16 (Some 4)
          (init_state \<lparr>rcs = [1], samples = [226]\<rparr>)) = None \<and>
   fst (snd (completion_loop (scripted_engine 1024) 3 2 5 16 (Some 4)
          (init_state \<lparr>rcs = [1], samples = [226]\<rparr>))) = Some 5 \<and>
   cached_token_chars (init_state \<lparr>rcs = [1], samples = [226]\<rparr>) = [] \<and>
   cached_token_chars (snd (snd (completion_loop (scripted_engine 1024) 3 2 5 16 (Some 4)
          (init_state \<lparr>rcs = [1], samples = [226]\<rparr>)))) = [0xE2]"
  by code_simp


section \<open>Partial-text accumulator: round trip\<close>

lemma cont_bytes_eq:
  "cont_bytes k bs =
     (if k \<le> length bs \<and> list_all (\<lambda>c. c AND 0xC0 = 0x80) (take k bs) then Some (drop k bs)
      else None)"
proof (induction k arbitrary: bs)
  case 0
  show ?case by simp
next
  case (Suc k)
  show ?case
  proof (cases bs)
    case Nil
    then show ?thesis by (simp add: deref_def)
  next
    case (Cons b r)
    then show ?thesis by (simp add: deref_def Suc.IH)
  qed
qed

lemma is_valid_utf8_units: "0 \<notin> set bs \<Longrightarrow> is_valid_utf8 bs = utf8_units bs"
proof (induction bs rule: utf8_units.induct)
  case 1
  show ?case by (subst is_valid_utf8.simps) (simp add: deref_def)
next
  case (2 b bs)
  then have b: "b \<noteq> 0" and rest: "0 \<notin> set bs" by auto
  show ?case
  proof (cases "lead_num b")
    case None
    with b show ?thesis by (subst is_valid_utf8.simps) (simp add: deref_def)
  next
    case (Some num)
    have "0 \<notin> set (drop (num - 1) bs)"
      using rest by (meson in_set_dropD)
    then have "is_valid_utf8 (drop (num - 1) bs) = utf8_units (drop (num - 1) bs)"
      using "2.IH" [OF Some] by simp
    moreover have "is_valid_utf8 (b # bs) =
        (case cont_bytes (num - 1) bs of None \<Rightarrow> False | Some r \<Rightarrow> is_valid_utf8 r)"
      using b Some by (subst is_valid_utf8.simps) (simp add: deref_def)
    ultimately show ?thesis
      using Some by (auto simp: cont_bytes_eq)
  qed
qed

lemma utf8_units_append: "utf8_units xs \<Longrightarrow> utf8_units (xs @ ys) = utf8_units ys"
proof (induction xs rule: utf8_units.induct)
  case 1
  show ?case by simp
next
  case (2 b bs)
  then obtain num where num: "lead_num b = Some num" and len: "num - 1 \<le> length bs"
    and conts: "list_all (\<lambda>c. c AND 0xC0 = 0x80) (take (num - 1) bs)"
    and rest: "utf8_units (drop (num - 1) bs)"
    by (auto split: option.splits)
  from "2.IH" [OF num rest] have "utf8_units (drop (num - 1) bs @ ys) = utf8_units ys" .
  with num len conts show ?case by simp
qed

lemma c_str_no_nul: "0 \<notin> set bs \<Longrightarrow> c_str bs = bs"
  by (auto simp add: c_str_def takeWhile_eq_all_conv)

lemma concat_filter_nonempty: "concat (filter (\<lambda>f. f \<noteq> []) fs) = concat fs"
  by (induction fs) simp_all

lemma feed_concat:
  assumes "pieces \<noteq> []" "utf8_units (cached @ concat pieces)" "0 \<notin> set (cached @ concat pieces)"
  shows "concat (feed cached pieces) = cached @ concat pieces"
  using assms
proof (induction pieces arbitrary: cached)
  case Nil
  then show ?case by simp
next
  case (Cons p ps)
  let ?buf = "cached @ p"
  have nul: "0 \<notin> set ?buf" "0 \<notin> set (concat ps)" using Cons.prems(3) by auto
  have whole: "utf8_units (?buf @ concat ps)" using Cons.prems(2) by simp
  show ?case
  proof (cases "utf8_units ?buf")
    case True
    then have acc: "accumulate cached p = (?buf, [])"
      using nul by (simp add: accumulate_def is_valid_utf8_units c_str_no_nul)
    have tail: "utf8_units (concat ps)"
      using utf8_units_append [OF True, of "concat ps"] whole by simp
    have "concat (feed [] ps) = concat ps"
    proof (cases ps)
      case Nil
      then show ?thesis by simp
    next
      case (Cons q qs)
      with Cons.IH [of "[]"] tail nul show ?thesis by simp
    qed
    with acc show ?thesis by simp
  next
    case False
    then have acc: "accumulate cached p = ([], ?buf)"
      using nul by (simp add: accumulate_def is_valid_utf8_units)
    have "ps \<noteq> []" using False whole by auto
    with Cons.IH [of ?buf] whole Cons.prems(3) have "concat (feed ?buf ps) = ?buf @ concat ps"
      by simp
    with acc show ?thesis by simp
  qed
qed

text \<open>
  Every byte string that is well-formed UTF-8 in the sense of RFC 3629 is well formed in
  the specification's sense; the proof checks the byte classes on all 256 bytes.
\<close>

lemma byte_cases:
  assumes "list_all (\<lambda>n. P (word_of_nat n :: byte)) [0..<256]"
  shows "P b"
proof -
  have all: "\<forall>n \<in> {0..<256::nat}. P (word_of_nat n :: byte)"
    using assms by (simp add: list_all_iff)
  have "unat b < 256" using unsigned_less [of b] by simp
  then have "unat b \<in> {0..<256}" by simp
  from bspec [OF all this] show ?thesis by simp
qed

lemma byte_classes:
  "(b \<le> 0x7F \<longrightarrow> lead_num b = Some 1) \<and>
   (0xC2 \<le> b \<and> b \<le> 0xDF \<longrightarrow> lead_num b = Some 2) \<and>
   (0xE0 \<le> b \<and> b \<le> 0xEF \<longrightarrow> lead_num b = Some 3) \<and>
   (0xF0 \<le> b \<and> b \<le> 0xF4 \<longrightarrow> lead_num b = Some 4) \<and>
   (0x80 \<le> b \<and> b \<le> 0xBF \<longrightarrow> b AND 0xC0 = 0x80)"
  by (rule byte_cases) code_simp


lemma byte_subranges:
  "(0xA0 \<le> b \<and> b \<le> 0xBF \<longrightarrow> utf8_tail b) \<and> (0x80 \<le> b \<and> b \<le> 0x9F \<longrightarrow> utf8_tail b) \<and>
   (0x90 \<le> b \<and> b \<le> 0xBF \<longrightarrow> utf8_tail b) \<and> (0x80 \<le> b \<and> b \<le> 0x8F \<longrightarrow> utf8_tail b)"
  by (rule byte_cases) code_simp

lemma utf8_strict_units: "utf8_strict bs \<Longrightarrow> utf8_units bs"
proof (induction bs rule: utf8_strict.induct)
  case 1
  show ?case by simp
next
  case (2 b0 bs)
  note cls = byte_classes [of b0]
  consider (one) "b0 \<le> 0x7F"
    | (two) "\<not> b0 \<le> 0x7F" "0xC2 \<le> b0 \<and> b0 \<le> 0xDF"
    | (three) "\<not> b0 \<le> 0x7F" "\<not> (0xC2 \<le> b0 \<and> b0 \<le> 0xDF)" "0xE0 \<le> b0 \<and> b0 \<le> 0xEF"
    | (four) "\<not> b0 \<le> 0x7F" "\<not> (0xC2 \<le> b0 \<and> b0 \<le> 0xDF)" "\<not> (0xE0 \<le> b0 \<and> b0 \<le> 0xEF)"
        "0xF0 \<le> b0 \<and> b0 \<le> 0xF4"
    using "2.prems" by (auto split: if_splits)
  then show ?case
  proof cases
    case one
    with "2.prems" "2.IH"(1) cls show ?thesis by simp
  next
    case two
    with "2.prems" obtain b1 r where bs: "bs = b1 # r" and t: "utf8_tail b1" and r: "utf8_strict r"
      by (auto split: list.splits)
    from "2.IH"(2) [OF two(1) two(2) bs] r have "utf8_units r" by simp
    with two cls bs t byte_classes [of b1] show ?thesis
      by (simp add: utf8_tail_def)
  next
    case three
    with "2.prems" obtain b1 b2 r where bs: "bs = b1 # b2 # r"
      and t: "second_of_3 b0 b1" "utf8_tail b2" and r: "utf8_strict r"
      by (auto split: list.splits)
    from "2.IH"(3) [OF three(1) three(2) three(3) bs refl] r have "utf8_units r" by simp
    moreover have "utf8_tail b1"
      using t(1) byte_subranges [of b1] by (auto simp: second_of_3_def split: if_splits)
    ultimately show ?thesis
      using three cls bs t byte_classes [of b1] byte_classes [of b2]
      by (simp add: utf8_tail_def)
  next
    case four
    with "2.prems" obtain b1 b2 b3 r where bs: "bs = b1 # b2 # b3 # r"
      and t: "second_of_4 b0 b1" "utf8_tail b2" "utf8_tail b3" and r: "utf8_strict r"
      by (auto split: list.splits)
    from "2.IH"(4) [OF four(1) four(2) four(3) four(4) bs refl refl] r have "utf8_units r" by simp
    moreover have "utf8_tail b1"
      using t(1) byte_subranges [of b1] by (auto simp: second_of_4_def split: if_splits)
    ultimately show ?thesis
      using four cls bs t byte_classes [of b1] byte_classes [of b2] byte_classes [of b3]
      by (simp add: utf8_tail_def eval_nat_numeral)
  qed
qed

text \<open>
  C8, as it holds of the source. For every byte string that is well formed (every lead
  byte followed by its continuation bytes, nothing cut off; valid UTF-8 in particular) and
  contains no NUL byte, and every split of it into pieces, feeding the pieces one at a
  time to the accumulator from an empty buffer and concatenating the non-empty emitted
  strings in order gives the byte string back.
\<close>

theorem accumulator_round_trip:
  assumes "utf8_units text" "0 \<notin> set text" "concat pieces = text"
  shows "concat (filter (\<lambda>f. f \<noteq> []) (feed [] pieces)) = text"
proof (cases pieces)
  case Nil
  with assms show ?thesis by simp
next
  case (Cons p ps)
  then have "pieces \<noteq> []" by simp
  from feed_concat [OF this, of "[]"] assms show ?thesis
    by (simp add: concat_filter_nonempty)
qed

text \<open>
  C8, concrete run: the euro sign followed by \<open>a\<close>, split inside the three-byte sequence;
  the first call emits nothing, the second the whole text.
\<close>

theorem accumulator_round_trip_witness:
  "utf8_units [0xE2, 0x82, 0xAC, 0x61] \<and> 0 \<notin> set [0xE2, 0x82, 0xAC, 0x61 :: byte] \<and>
   concat [[0xE2], [0x82, 0xAC, 0x61]] = [0xE2, 0x82, 0xAC, 0x61 :: byte] \<and>
   feed [] [[0xE2], [0x82, 0xAC, 0x61]] = [[], [0xE2, 0x82, 0xAC, 0x61]] \<and>
   concat (filter (\<lambda>f. f \<noteq> []) (feed [] [[0xE2], [0x82, 0xAC, 0x61]])) = [0xE2, 0x82, 0xAC, 0x61]"
proof -
  have a: "utf8_units [0xE2, 0x82, 0xAC, 0x61]" by code_simp
  have b: "0 \<notin> set [0xE2, 0x82, 0xAC, 0x61 :: byte]" by simp
  have c: "concat [[0xE2], [0x82, 0xAC, 0x61]] = [0xE2, 0x82, 0xAC, 0x61 :: byte]" by simp
  have d: "feed [] [[0xE2], [0x82, 0xAC, 0x61]] = [[], [0xE2, 0x82, 0xAC, 0x61]]" by code_simp
  from accumulator_round_trip [OF a b c] a b c d show ?thesis by simp
qed

text \<open>
  C8 as stated fails on a text with a NUL byte (U+0000 is well-formed UTF-8): the
  C-string check stops at the NUL and accepts, \<^verbatim>\<open>NewStringUTF\<close> reads up to the NUL, and
  the buffer is cleared, so \<open>a\<close>, NUL, \<open>b\<close> comes back as \<open>a\<close>.
\<close>

theorem accumulator_round_trip_counterexample:
  "utf8_units [0x61, 0x00, 0x62] \<and> concat [[0x61, 0x00, 0x62]] = [0x61, 0x00, 0x62 :: byte] \<and>
   concat (filter (\<lambda>f. f \<noteq> []) (feed [] [[0x61, 0x00, 0x62]])) = [0x61]"
  by code_simp

section \<open>Batch allocation: the failure path\<close>

text \<open>
  What holds on every failure path of \<open>new_batch\<close>: the registries are left as they were.
\<close>

lemma new_batch_failure_keeps_registries:
  "fst (new_batch R h n_tokens embd n_seq_max) = Inl e \<Longrightarrow>
   fst (snd (new_batch R h n_tokens embd n_seq_max)) = R"
  by (auto simp add: new_batch_def Let_def split: if_splits sum.splits)

text \<open>
  What does not hold: a buffer allocated before the failing \<^verbatim>\<open>malloc\<close> stays live. If the
  first \<^verbatim>\<open>malloc\<close> succeeds and a later one fails, the block of the first buffer (the
  address after the struct's) is still allocated when \<open>new_batch\<close> returns.
\<close>

lemma malloc_live: "a \<in> set (live h) \<Longrightarrow> a \<in> set (live (snd (malloc h)))"
  by (auto simp: malloc_def fresh_block_def split: list.splits)

lemma alloc_rows_live: "a \<in> set (live h) \<Longrightarrow> a \<in> set (live (snd (alloc_rows k rows h)))"
proof (induction k arbitrary: rows h)
  case 0
  then show ?case by simp
next
  case (Suc k)
  from Suc.prems have "a \<in> set (live (snd (malloc h)))" by (rule malloc_live)
  then show ?case
    by (cases "fst (malloc h)") (simp_all add: Suc.IH)
qed

lemma free_live: "a \<in> set (live h) \<Longrightarrow> a \<noteq> p \<Longrightarrow> a \<in> set (live (free h p))"
  by (simp add: free_def)

lemma malloc_first:
  "fst (malloc (snd (fresh_block h))) \<noteq> None \<Longrightarrow>
   Suc (next_addr h) \<in> set (live (snd (malloc (snd (fresh_block h)))))"
  by (auto simp: malloc_def fresh_block_def split: list.splits if_splits)

lemma new_batch_first_buffer_leaks:
  assumes "fst (new_batch R h n_tokens embd n_seq_max) = Inl OutOfMemoryError"
    and "fst (malloc (snd (fresh_block h))) \<noteq> None"
  shows "Suc (next_addr h) \<in> set (live (snd (snd (new_batch R h n_tokens embd n_seq_max))))"
proof -
  let ?a = "Suc (next_addr h)"
  have ne: "?a \<noteq> fst (fresh_block h)" by (simp add: fresh_block_def)
  note keep = malloc_live alloc_rows_live
  from malloc_first [OF assms(2)] have 1: "?a \<in> set (live (snd (malloc (snd (fresh_block h)))))" .
  from assms show ?thesis
    by (auto simp add: new_batch_def Let_def split: if_splits sum.splits
        intro!: free_live ne keep 1)
qed

text \<open>
  C6, where the source falls short of it. \<open>new_batch 1 0 1\<close> on an empty heap whose first \<^verbatim>\<open>malloc\<close>
  succeeds and whose second fails: \<^verbatim>\<open>OutOfMemoryError\<close> is raised, the struct (block 100)
  has been deleted, and the token buffer (block 101) is still live: it is leaked. For
  comparison, when every \<^verbatim>\<open>malloc\<close> succeeds the seven blocks 100 to 106 are live, and
  \<open>free_batch\<close> on the returned handle releases every one of them.
\<close>

theorem new_batch_leaks_on_malloc_failure:
  "fst (new_batch no_regs (empty_heap [True, False]) 1 0 1) = Inl OutOfMemoryError \<and>
   live (empty_heap [True, False]) = [] \<and>
   live (snd (snd (new_batch no_regs (empty_heap [True, False]) 1 0 1))) = [101] \<and>
   fst (new_batch no_regs (empty_heap []) 1 0 1) = Inr 100 \<and>
   live (snd (snd (new_batch no_regs (empty_heap []) 1 0 1))) = [100, 101, 102, 103, 104, 105, 106] \<and>
   live (snd (free_batch (fst (snd (new_batch no_regs (empty_heap []) 1 0 1)))
                (snd (snd (new_batch no_regs (empty_heap []) 1 0 1))) 100)) = []"
  by code_simp

end
